theory Spec2Isabelle
  imports Complex_Main "HOL-Library.Word"
begin

section \<open>JavaScript numbers\<close>

text \<open>
  The matcher computes with JavaScript numbers, that is IEEE 754 binary64 values.
  A number is modelled as a real, one of the two infinities, or NaN.  Every arithmetic
  operation takes the rounding function \<open>rnd\<close> that is applied to its exact real result:
  the identity gives exact arithmetic, \<open>binary64\<close> (defined below) rounds to the nearest
  double, ties to even.  Overflow and gradual underflow are not modelled (the values of
  this program are sums and quotients of at most a buffer length many bytes), and the two
  zeros are identified; a zero divisor is taken to be \<open>+0\<close>, which is what a buffer
  length and a product of standard deviations are.
\<close>

datatype number = NaN | NInf | PInf | Num real

type_synonym rounding = "real \<Rightarrow> real"

fun positive :: "number \<Rightarrow> bool" where
  "positive PInf = True"
| "positive (Num a) = (0 < a)"
| "positive _ = False"

fun jsneg :: "number \<Rightarrow> number" where
  "jsneg NaN = NaN"
| "jsneg NInf = PInf"
| "jsneg PInf = NInf"
| "jsneg (Num a) = Num (- a)"

fun jsadd :: "rounding \<Rightarrow> number \<Rightarrow> number \<Rightarrow> number" where
  "jsadd rnd (Num a) (Num b) = Num (rnd (a + b))"
| "jsadd rnd NaN _ = NaN"
| "jsadd rnd _ NaN = NaN"
| "jsadd rnd PInf NInf = NaN"
| "jsadd rnd NInf PInf = NaN"
| "jsadd rnd PInf _ = PInf"
| "jsadd rnd _ PInf = PInf"
| "jsadd rnd NInf _ = NInf"
| "jsadd rnd _ NInf = NInf"

definition jssub :: "rounding \<Rightarrow> number \<Rightarrow> number \<Rightarrow> number" where
  "jssub rnd a b = jsadd rnd a (jsneg b)"

fun jsmul :: "rounding \<Rightarrow> number \<Rightarrow> number \<Rightarrow> number" where
  "jsmul rnd (Num a) (Num b) = Num (rnd (a * b))"
| "jsmul rnd NaN _ = NaN"
| "jsmul rnd _ NaN = NaN"
| "jsmul rnd a b =
     (if a = Num 0 \<or> b = Num 0 then NaN
      else if positive a = positive b then PInf else NInf)"

fun jsdiv :: "rounding \<Rightarrow> number \<Rightarrow> number \<Rightarrow> number" where
  "jsdiv rnd (Num a) (Num b) =
     (if b = 0 then (if a = 0 then NaN else if 0 < a then PInf else NInf)
      else Num (rnd (a / b)))"
| "jsdiv rnd NaN _ = NaN"
| "jsdiv rnd _ NaN = NaN"
| "jsdiv rnd (Num a) _ = Num 0"
| "jsdiv rnd a (Num b) = (if positive a = (0 \<le> b) then PInf else NInf)"
| "jsdiv rnd _ _ = NaN"

text \<open>\<open>Math.sqrt\<close>, and \<open>Math.pow(v, 2)\<close> taken as the correctly rounded square.\<close>

fun jssqrt :: "rounding \<Rightarrow> number \<Rightarrow> number" where
  "jssqrt rnd (Num a) = (if a < 0 then NaN else Num (rnd (sqrt a)))"
| "jssqrt rnd PInf = PInf"
| "jssqrt rnd _ = NaN"

definition jspow2 :: "rounding \<Rightarrow> number \<Rightarrow> number" where
  "jspow2 rnd v = jsmul rnd v v"

text \<open>
  Rounding to the nearest double, ties to even, on an unbounded exponent range: a
  non-zero \<open>x\<close> with \<open>2\<^sup>e \<le> |x| < 2\<^sup>e\<^sup>+\<^sup>1\<close> is rounded to the nearest
  multiple of \<open>2\<^sup>e\<^sup>-\<^sup>5\<^sup>2\<close>.
\<close>

definition round_ties_even :: "real \<Rightarrow> int" where
  "round_ties_even r =
     (let f = \<lfloor>r\<rfloor>
      in if r - of_int f < 1 / 2 then f
         else if 1 / 2 < r - of_int f then f + 1
         else if even f then f else f + 1)"

definition binary64 :: rounding where
  "binary64 x =
     (if x = 0 then 0
      else let ulp = 2 powr (of_int \<lfloor>log 2 \<bar>x\<bar>\<rfloor> - 52)
           in of_int (round_ties_even (x / ulp)) * ulp)"

text \<open>The comparisons \<open>===\<close>, \<open>>=\<close> and \<open>>\<close> on numbers: every comparison with NaN is false.\<close>

definition jseq :: "number \<Rightarrow> number \<Rightarrow> bool" where
  "jseq a b = (a \<noteq> NaN \<and> a = b)"

fun jsge :: "number \<Rightarrow> number \<Rightarrow> bool" where
  "jsge (Num a) (Num b) = (b \<le> a)"
| "jsge NaN _ = False"
| "jsge _ NaN = False"
| "jsge PInf _ = True"
| "jsge _ NInf = True"
| "jsge _ _ = False"

fun jsgt :: "number \<Rightarrow> number \<Rightarrow> bool" where
  "jsgt (Num a) (Num b) = (b < a)"
| "jsgt NaN _ = False"
| "jsgt _ NaN = False"
| "jsgt NInf _ = False"
| "jsgt _ PInf = False"
| "jsgt _ _ = True"

section \<open>Typed arrays\<close>

text \<open>
  A \<open>Uint8Array\<close> is a list of bytes.  Reading past the end yields \<open>undefined\<close>;
  the program only subtracts from such a value or compares it with a number by
  \<open>!==\<close>, where \<open>undefined\<close> behaves as NaN does, so the read returns NaN there.
\<close>

type_synonym Uint8Array = "8 word list"

datatype error = Error string | RangeError string | TypeError string

definition byte_num :: "8 word \<Rightarrow> number" where
  "byte_num b = Num (real (unat b))"

definition ta_get :: "Uint8Array \<Rightarrow> nat \<Rightarrow> number" where
  "ta_get buffer i = (if i < length buffer then byte_num (buffer ! i) else NaN)"

text \<open>\<open>subarray(begin, end)\<close> clamps both ends to the length of the array.\<close>

definition subarray :: "Uint8Array \<Rightarrow> nat \<Rightarrow> nat \<Rightarrow> Uint8Array" where
  "subarray buffer begin end = take (end - begin) (drop begin buffer)"

text \<open>\<open>target.set(source, offset)\<close> throws a RangeError when the source does not fit.\<close>

definition ta_set :: "Uint8Array \<Rightarrow> Uint8Array \<Rightarrow> nat \<Rightarrow> error + Uint8Array" where
  "ta_set target source offset =
     (if length target < offset + length source then Inl (RangeError ''offset is out of bounds'')
      else Inr (take offset target @ source @ drop (offset + length source) target))"

section \<open>Data model\<close>

record Image =
  width :: nat
  height :: nat
  channels :: nat
  data :: Uint8Array

record Region =
  left :: nat
  top :: nat
  width :: nat
  height :: nat

record 'l MatchResult =
  confidence :: number
  location :: 'l
  error :: "error option"

record ('n, 'p) MatchRequest =
  haystack :: Image
  needle :: 'n
  confidence :: "number option"
  providerData :: "'p option"

definition new_Region :: "nat \<Rightarrow> nat \<Rightarrow> nat \<Rightarrow> nat \<Rightarrow> Region" where
  "new_Region l t w h = \<lparr>left = l, top = t, width = w, height = h\<rparr>"

definition new_MatchResult :: "number \<Rightarrow> 'l \<Rightarrow> error option \<Rightarrow> 'l MatchResult" where
  "new_MatchResult c loc err = \<lparr>MatchResult.confidence = c, location = loc, error = err\<rparr>"

section \<open>Window statistics\<close>

definition calculateMean :: "rounding \<Rightarrow> Uint8Array \<Rightarrow> number" where
  "calculateMean rnd buffer =
     (let sum = foldl (\<lambda>sum i. jsadd rnd sum (ta_get buffer i)) (Num 0) [0..<length buffer]
      in jsdiv rnd sum (Num (real (length buffer))))"

definition calculateStdDev :: "rounding \<Rightarrow> Uint8Array \<Rightarrow> number \<Rightarrow> number" where
  "calculateStdDev rnd buffer mean =
     (let sumSq = foldl (\<lambda>sumSq i. jsadd rnd sumSq (jspow2 rnd (jssub rnd (ta_get buffer i) mean)))
                    (Num 0) [0..<length buffer]
      in jssqrt rnd (jsdiv rnd sumSq (Num (real (length buffer)))))"

section \<open>Correlation engine\<close>

definition calculateNCC ::
  "rounding \<Rightarrow> Uint8Array \<Rightarrow> Uint8Array \<Rightarrow> number \<Rightarrow> number \<Rightarrow> number" where
  "calculateNCC rnd regionBuffer needleBuffer needleMean needleStdDev =
     (let regionMean = calculateMean rnd regionBuffer;
          regionStdDev = calculateStdDev rnd regionBuffer regionMean
      in if jseq regionStdDev (Num 0) then (if jseq needleStdDev (Num 0) then Num 1 else Num 0)
         else
           let covariance =
                 foldl (\<lambda>covariance i.
                          jsadd rnd covariance
                            (jsmul rnd (jssub rnd (ta_get regionBuffer i) regionMean)
                                       (jssub rnd (ta_get needleBuffer i) needleMean)))
                   (Num 0) [0..<length regionBuffer];
               covariance = jsdiv rnd covariance (Num (real (length regionBuffer)));
               ncc = jsdiv rnd covariance (jsmul rnd regionStdDev needleStdDev)
           in jsdiv rnd (jsadd rnd ncc (Num 1)) (Num 2))"

definition extractRegion ::
  "Uint8Array \<Rightarrow> nat \<Rightarrow> nat \<Rightarrow> nat \<Rightarrow> nat \<Rightarrow> nat \<Rightarrow> error + Uint8Array" where
  "extractRegion buffer srcWidth x y regionWidth regionHeight =
     foldl (\<lambda>regionBuffer j.
              case regionBuffer of
                Inl e \<Rightarrow> Inl e
              | Inr rb \<Rightarrow>
                  let sourceStart = (y + j) * srcWidth + x;
                      targetStart = j * regionWidth
                  in ta_set rb (subarray buffer sourceStart (sourceStart + regionWidth)) targetStart)
       (Inr (replicate (regionWidth * regionHeight) 0)) [0..<regionHeight]"

text \<open>
  The pixel loops of \<open>findUniformMatches\<close>: both run while their counter is in range
  and \<open>allMatch\<close> still holds.
\<close>

function pixelLoop ::
  "Uint8Array \<Rightarrow> nat \<Rightarrow> nat \<Rightarrow> nat \<Rightarrow> nat \<Rightarrow> number \<Rightarrow> nat \<Rightarrow> nat \<Rightarrow> bool \<Rightarrow> bool" where
  "pixelLoop haystackBuffer haystackWidth x y needleWidth needleValue j i allMatch =
     (if i < needleWidth \<and> allMatch
      then pixelLoop haystackBuffer haystackWidth x y needleWidth needleValue j (i + 1)
             (let haystackIndex = (y + j) * haystackWidth + (x + i)
              in if \<not> jseq (ta_get haystackBuffer haystackIndex) needleValue then False
                 else allMatch)
      else allMatch)"
  by pat_completeness auto
termination
  by (relation "measure (\<lambda>(hb, hw, x, y, nw, v, j, i, a). nw - i)") auto

declare pixelLoop.simps [simp del]

function rowLoop ::
  "Uint8Array \<Rightarrow> nat \<Rightarrow> nat \<Rightarrow> nat \<Rightarrow> nat \<Rightarrow> nat \<Rightarrow> number \<Rightarrow> nat \<Rightarrow> bool \<Rightarrow> bool" where
  "rowLoop haystackBuffer haystackWidth x y needleWidth needleHeight needleValue j allMatch =
     (if j < needleHeight \<and> allMatch
      then rowLoop haystackBuffer haystackWidth x y needleWidth needleHeight needleValue (j + 1)
             (pixelLoop haystackBuffer haystackWidth x y needleWidth needleValue j 0 allMatch)
      else allMatch)"
  by pat_completeness auto
termination
  by (relation "measure (\<lambda>(hb, hw, x, y, nw, nh, v, j, a). nh - j)") auto

declare rowLoop.simps [simp del]

definition findUniformMatches ::
  "Uint8Array \<Rightarrow> nat \<Rightarrow> nat \<Rightarrow> Uint8Array \<Rightarrow> nat \<Rightarrow> nat \<Rightarrow> number \<Rightarrow> number
     \<Rightarrow> Region MatchResult list" where
  "findUniformMatches haystackBuffer haystackWidth haystackHeight needleBuffer
       needleWidth needleHeight needleValue minConfidence =
     (let maxX = int haystackWidth - int needleWidth;
          maxY = int haystackHeight - int needleHeight
      in foldl (\<lambda>matches y.
           foldl (\<lambda>matches x.
                    let allMatch = rowLoop haystackBuffer haystackWidth x y
                                     needleWidth needleHeight needleValue 0 True
                    in if allMatch
                       then matches @ [new_MatchResult (Num 1)
                                         (new_Region x y needleWidth needleHeight) None]
                       else matches)
             matches [0..<nat (maxX + 1)])
         [] [0..<nat (maxY + 1)])"

definition templateMatch ::
  "rounding \<Rightarrow> Uint8Array \<Rightarrow> nat \<Rightarrow> nat \<Rightarrow> Uint8Array \<Rightarrow> nat \<Rightarrow> nat \<Rightarrow> number
     \<Rightarrow> error + Region MatchResult list" where
  "templateMatch rnd haystackBuffer haystackWidth haystackHeight needleBuffer
       needleWidth needleHeight minConfidence =
     (let maxX = int haystackWidth - int needleWidth;
          maxY = int haystackHeight - int needleHeight;
          needleMean = calculateMean rnd needleBuffer;
          needleStdDev = calculateStdDev rnd needleBuffer needleMean
      in if jseq needleStdDev (Num 0)
         then Inr (findUniformMatches haystackBuffer haystackWidth haystackHeight needleBuffer
                     needleWidth needleHeight needleMean minConfidence)
         else
           foldl (\<lambda>matches y.
             foldl (\<lambda>matches x.
                      case matches of
                        Inl e \<Rightarrow> Inl e
                      | Inr ms \<Rightarrow>
                          (case extractRegion haystackBuffer haystackWidth x y
                                  needleWidth needleHeight of
                             Inl e \<Rightarrow> Inl e
                           | Inr regionBuffer \<Rightarrow>
                               let confidence = calculateNCC rnd regionBuffer needleBuffer
                                                  needleMean needleStdDev
                               in if jsge confidence minConfidence
                                  then Inr (ms @ [new_MatchResult confidence
                                                    (new_Region x y needleWidth needleHeight) None])
                                  else Inr ms))
               matches [0..<nat (maxX + 1)])
             (Inr []) [0..<nat (maxY + 1)])"

section \<open>Match aggregator\<close>

text \<open>
  The grayscale conversion is done by the image library \<open>sharp\<close>, which is not part of
  the repository: it is a parameter, returning the raw one-channel buffer or the message
  of the error it throws.
\<close>

type_synonym converter = "Image \<Rightarrow> string + Uint8Array"

definition imageToRawBuffer :: "converter \<Rightarrow> Image \<Rightarrow> error + Uint8Array" where
  "imageToRawBuffer sharp img =
     (case sharp img of
        Inl message \<Rightarrow> Inl (Error (''Failed to convert image to raw buffer: '' @ message))
      | Inr rawBuffer \<Rightarrow> Inr rawBuffer)"

definition DEFAULT_CONFIDENCE :: "rounding \<Rightarrow> number" where
  "DEFAULT_CONFIDENCE rnd = Num (rnd (8 / 10))"

text \<open>
  Every value thrown inside \<open>findMatches\<close> is an \<open>Error\<close> instance, which its
  \<open>catch\<close> block throws again unchanged.
\<close>

definition findMatches ::
  "converter \<Rightarrow> rounding \<Rightarrow> (Image, 'p) MatchRequest \<Rightarrow> error + Region MatchResult list" where
  "findMatches sharp rnd matchRequest =
     (let haystack = MatchRequest.haystack matchRequest;
          needle = MatchRequest.needle matchRequest;
          minConfidence = (case MatchRequest.confidence matchRequest of
                             None \<Rightarrow> DEFAULT_CONFIDENCE rnd
                           | Some c \<Rightarrow> c)
      in if Image.width haystack < Image.width needle \<or> Image.height haystack < Image.height needle
         then Inl (Error ''Needle image is larger than haystack image'')
         else
           (case imageToRawBuffer sharp haystack of
              Inl e \<Rightarrow> Inl e
            | Inr haystackBuffer \<Rightarrow>
                (case imageToRawBuffer sharp needle of
                   Inl e \<Rightarrow> Inl e
                 | Inr needleBuffer \<Rightarrow>
                     templateMatch rnd haystackBuffer (Image.width haystack) (Image.height haystack)
                       needleBuffer (Image.width needle) (Image.height needle) minConfidence)))"

text \<open>\<open>Array.prototype.reduce\<close> without an initial value.\<close>

definition reduce :: "('a \<Rightarrow> 'a \<Rightarrow> 'a) \<Rightarrow> 'a list \<Rightarrow> error + 'a" where
  "reduce f xs =
     (case xs of
        [] \<Rightarrow> Inl (TypeError ''Reduce of empty array with no initial value'')
      | x # rest \<Rightarrow> Inr (foldl f x rest))"

definition findMatch ::
  "converter \<Rightarrow> rounding \<Rightarrow> (Image, 'p) MatchRequest \<Rightarrow> Region MatchResult" where
  "findMatch sharp rnd matchRequest =
     (case (case findMatches sharp rnd matchRequest of
              Inl e \<Rightarrow> Inl e
            | Inr matches \<Rightarrow>
                if length matches = 0
                then Inr (new_MatchResult (Num 0) (new_Region 0 0 0 0)
                            (Some (Error ''No matches found'')))
                else reduce (\<lambda>best current.
                               if jsgt (MatchResult.confidence current) (MatchResult.confidence best)
                               then current else best) matches)
      of
        Inl err \<Rightarrow> new_MatchResult (Num 0) (new_Region 0 0 0 0) (Some err)
      | Inr result \<Rightarrow> result)"


section \<open>Notions used to state the properties\<close>

text \<open>
  The buffer that \<open>extractRegion\<close> returns (lemma \<open>extractRegion_window\<close>): row \<open>j\<close> of the
  window is the part of the source row that exists, filled up with zeros.
\<close>

definition window_row :: "Uint8Array \<Rightarrow> nat \<Rightarrow> nat \<Rightarrow> nat \<Rightarrow> nat \<Rightarrow> nat \<Rightarrow> Uint8Array" where
  "window_row buffer srcWidth x y regionWidth j =
     (let row = subarray buffer ((y + j) * srcWidth + x) ((y + j) * srcWidth + x + regionWidth)
      in row @ replicate (regionWidth - length row) 0)"

definition window :: "Uint8Array \<Rightarrow> nat \<Rightarrow> nat \<Rightarrow> nat \<Rightarrow> nat \<Rightarrow> nat \<Rightarrow> Uint8Array" where
  "window buffer srcWidth x y regionWidth regionHeight =
     concat (map (window_row buffer srcWidth x y regionWidth) [0..<regionHeight])"

text \<open>
  The candidate offsets in raster order: rows from the top, and in each row the columns
  from the left; \<open>f x y\<close> is what the offset \<open>(x, y)\<close> contributes.
\<close>

definition scan :: "nat \<Rightarrow> nat \<Rightarrow> nat \<Rightarrow> nat \<Rightarrow> (nat \<Rightarrow> nat \<Rightarrow> 'a list) \<Rightarrow> 'a list" where
  "scan haystackWidth haystackHeight needleWidth needleHeight f =
     concat (map (\<lambda>y. concat (map (\<lambda>x. f x y)
                                [0..<nat (int haystackWidth - int needleWidth + 1)]))
               [0..<nat (int haystackHeight - int needleHeight + 1)])"

definition raster_before :: "Region \<Rightarrow> Region \<Rightarrow> bool" where
  "raster_before a b \<longleftrightarrow> top a < top b \<or> (top a = top b \<and> left a < left b)"

text \<open>Every pixel of the haystack window at \<open>(x, y)\<close> is the number \<open>v\<close>.\<close>

definition window_equals :: "Uint8Array \<Rightarrow> nat \<Rightarrow> nat \<Rightarrow> nat \<Rightarrow> nat \<Rightarrow> nat \<Rightarrow> number \<Rightarrow> bool" where
  "window_equals haystackBuffer haystackWidth x y needleWidth needleHeight v =
     (\<forall>j<needleHeight. \<forall>i<needleWidth.
        jseq (ta_get haystackBuffer ((y + j) * haystackWidth + (x + i))) v)"

text \<open>The confidence that the general branch computes for the offset \<open>(x, y)\<close>.\<close>

definition window_confidence ::
  "rounding \<Rightarrow> Uint8Array \<Rightarrow> nat \<Rightarrow> Uint8Array \<Rightarrow> nat \<Rightarrow> nat \<Rightarrow> nat \<Rightarrow> nat \<Rightarrow> number" where
  "window_confidence rnd haystackBuffer haystackWidth needleBuffer needleWidth needleHeight x y =
     calculateNCC rnd (window haystackBuffer haystackWidth x y needleWidth needleHeight) needleBuffer
       (calculateMean rnd needleBuffer)
       (calculateStdDev rnd needleBuffer (calculateMean rnd needleBuffer))"

text \<open>The threshold of a request: \<open>confidence ?? DEFAULT_CONFIDENCE\<close>.\<close>

definition threshold :: "rounding \<Rightarrow> ('n, 'p) MatchRequest \<Rightarrow> number" where
  "threshold rnd matchRequest =
     (case MatchRequest.confidence matchRequest of None \<Rightarrow> DEFAULT_CONFIDENCE rnd | Some c \<Rightarrow> c)"

text \<open>The callback of the reduction in \<open>findMatch\<close>, and the index it selects.\<close>

definition pick_best :: "'l MatchResult \<Rightarrow> 'l MatchResult \<Rightarrow> 'l MatchResult" where
  "pick_best best current =
     (if jsgt (MatchResult.confidence current) (MatchResult.confidence best) then current else best)"

definition first_max :: "'l MatchResult list \<Rightarrow> nat \<Rightarrow> bool" where
  "first_max ms i \<longleftrightarrow>
     i < length ms
     \<and> (\<forall>k<length ms. jsge (MatchResult.confidence (ms ! i)) (MatchResult.confidence (ms ! k)))
     \<and> (\<forall>k<i. jsgt (MatchResult.confidence (ms ! i)) (MatchResult.confidence (ms ! k)))"

section \<open>Example inputs\<close>

text \<open>
  One-channel images, requests without provider data, and a stand-in for the image
  library on one-channel raw images.  Like the library, the stand-in throws
  \<open>Input Buffer is empty\<close> for empty data and
  \<open>Expected width, height and channels for raw pixel input\<close> for a width or height
  of 0, fails on fewer than width times height bytes, and otherwise hands over the first
  width times height bytes unchanged, which is what the grayscale conversion of a
  one-channel image returns.  The conversion of images with more channels is the
  library's own and is left out: the stand-in is used on one-channel images only and
  answers the others with an error of its own.
\<close>

definition gray :: "nat \<Rightarrow> nat \<Rightarrow> Uint8Array \<Rightarrow> Image" where
  "gray w h bytes = \<lparr>Image.width = w, Image.height = h, channels = 1, data = bytes\<rparr>"

definition raw_copy :: converter where
  "raw_copy img =
     (if data img = [] then Inl ''Input Buffer is empty''
      else if Image.width img = 0 \<or> Image.height img = 0
      then Inl ''Expected width, height and channels for raw pixel input''
      else if channels img \<noteq> 1 then Inl ''more than one channel: not modelled''
      else if length (data img) < Image.width img * Image.height img
      then Inl ''memory area too small''
      else Inr (take (Image.width img * Image.height img) (data img)))"

definition request :: "Image \<Rightarrow> Image \<Rightarrow> number option \<Rightarrow> (Image, unit) MatchRequest" where
  "request h n c = \<lparr>haystack = h, needle = n, MatchRequest.confidence = c, providerData = None\<rparr>"


text \<open>
  What the degenerate branch needs of a rounding function: it rounds no non-zero value to
  0 and no non-negative value below 0.  Exact arithmetic and rounding to the nearest
  double both do.
\<close>

definition keeps_sign :: "rounding \<Rightarrow> bool" where
  "keeps_sign rnd \<longleftrightarrow> (\<forall>x. rnd x = 0 \<longrightarrow> x = 0) \<and> (\<forall>x. 0 \<le> x \<longrightarrow> 0 \<le> rnd x)"

fun is_Num :: "number \<Rightarrow> bool" where
  "is_Num (Num a) = True"
| "is_Num _ = False"

text \<open>
  Mean, population standard deviation, covariance and normalised cross-correlation of
  pixel buffers as the specification words them, over the reals.
\<close>

definition pixel :: "Uint8Array \<Rightarrow> nat \<Rightarrow> real" where
  "pixel buffer i = real (unat (buffer ! i))"

definition mean_spec :: "Uint8Array \<Rightarrow> real" where
  "mean_spec buffer = (\<Sum>i<length buffer. pixel buffer i) / real (length buffer)"

definition stddev_spec :: "Uint8Array \<Rightarrow> real" where
  "stddev_spec buffer =
     sqrt ((\<Sum>i<length buffer. (pixel buffer i - mean_spec buffer)\<^sup>2) / real (length buffer))"

definition covariance_spec :: "Uint8Array \<Rightarrow> Uint8Array \<Rightarrow> real" where
  "covariance_spec regionBuffer needleBuffer =
     (\<Sum>i<length regionBuffer. (pixel regionBuffer i - mean_spec regionBuffer) * (pixel needleBuffer i - mean_spec needleBuffer))
       / real (length regionBuffer)"

definition ncc_spec :: "Uint8Array \<Rightarrow> Uint8Array \<Rightarrow> real" where
  "ncc_spec regionBuffer needleBuffer =
     covariance_spec regionBuffer needleBuffer / (stddev_spec regionBuffer * stddev_spec needleBuffer)"


text \<open>
  What the properties about buffer lengths need of the converter: a conversion that
  succeeds was given an image of positive width and height and returns at least one
  byte for each of its pixels.  The library behaves so: it throws for empty data and for
  a width or height of 0, and it writes every pixel of the image.
\<close>

definition pixel_converter :: "converter \<Rightarrow> bool" where
  "pixel_converter sharp \<longleftrightarrow>
     (\<forall>img buffer. sharp img = Inr buffer \<longrightarrow>
        0 < Image.width img \<and> 0 < Image.height img
        \<and> Image.width img * Image.height img \<le> length buffer)"

text \<open>
  The buffers that a call of \<open>findMatches\<close> hands to \<open>calculateMean\<close> and
  \<open>calculateStdDev\<close>, in the order of the calls.  \<open>templateMatch\<close> calls both on the needle
  buffer; in the general branch \<open>calculateNCC\<close> calls both on the window of every
  candidate offset, in raster order, and divides the covariance by the length of that
  window; \<open>findUniformMatches\<close> calls neither.  A request that the dimension check
  rejects, or whose conversion fails, reaches none of these calls.
\<close>

definition statistics_inputs ::
  "converter \<Rightarrow> rounding \<Rightarrow> (Image, 'p) MatchRequest \<Rightarrow> Uint8Array list" where
  "statistics_inputs sharp rnd matchRequest =
     (let haystack = MatchRequest.haystack matchRequest;
          needle = MatchRequest.needle matchRequest
      in if Image.width haystack < Image.width needle \<or> Image.height haystack < Image.height needle
         then []
         else
           (case imageToRawBuffer sharp haystack of
              Inl e \<Rightarrow> []
            | Inr haystackBuffer \<Rightarrow>
                (case imageToRawBuffer sharp needle of
                   Inl e \<Rightarrow> []
                 | Inr needleBuffer \<Rightarrow>
                     needleBuffer #
                     (if jseq (calculateStdDev rnd needleBuffer (calculateMean rnd needleBuffer))
                           (Num 0)
                      then []
                      else scan (Image.width haystack) (Image.height haystack)
                             (Image.width needle) (Image.height needle)
                             (\<lambda>x y. [window haystackBuffer (Image.width haystack) x y
                                       (Image.width needle) (Image.height needle)])))))"

text \<open>
  A rounding function of relative error at most \<open>u\<close>.  Exact arithmetic has relative
  error 0, and rounding to the nearest double has relative error at most \<open>2\<^sup>-\<^sup>5\<^sup>3\<close>.
\<close>

definition rel_error :: "rounding \<Rightarrow> real \<Rightarrow> bool" where
  "rel_error rnd u \<longleftrightarrow> (\<forall>x. \<bar>rnd x - x\<bar> \<le> u * \<bar>x\<bar>)"

text \<open>The quotient of which \<open>calculateStdDev\<close> returns the square root.\<close>

definition variance :: "rounding \<Rightarrow> Uint8Array \<Rightarrow> number \<Rightarrow> number" where
  "variance rnd buffer mean =
     jsdiv rnd
       (foldl (\<lambda>sumSq i. jsadd rnd sumSq (jspow2 rnd (jssub rnd (ta_get buffer i) mean)))
          (Num 0) [0..<length buffer])
       (Num (real (length buffer)))"

section \<open>Auxiliary lemmas\<close>

subsection \<open>Accumulating loops\<close>

lemma foldl_push:
  assumes "\<And>acc x. x \<in> set xs \<Longrightarrow> g acc x = acc @ f x"
  shows "foldl g acc xs = acc @ concat (map f xs)"
  using assms by (induction xs arbitrary: acc) simp_all

lemma foldl_push_Inr:
  assumes "\<And>acc x. x \<in> set xs \<Longrightarrow> g (Inr acc) x = Inr (acc @ f x)"
  shows "foldl g (Inr acc) xs = Inr (acc @ concat (map f xs))"
  using assms by (induction xs arbitrary: acc) simp_all

subsection \<open>The extracted window\<close>

lemma length_subarray_le: "length (subarray b s (s + w)) \<le> w"
  by (simp add: subarray_def)

lemma length_window_row [simp]: "length (window_row b sw x y rw j) = rw"
  by (simp add: window_row_def Let_def subarray_def)

lemma length_concat_rows [simp]:
  "length (concat (map (window_row b sw x y rw) js)) = rw * length js"
  by (induction js) simp_all

lemma length_window [simp]: "length (window b sw x y rw rh) = rw * rh"
  by (simp add: window_def)

lemma extract_step:
  assumes "k < rh"
  shows "ta_set (concat (map (window_row b sw x y rw) [0..<k]) @ replicate (rw * (rh - k)) 0)
           (subarray b ((y + k) * sw + x) ((y + k) * sw + x + rw)) (k * rw)
         = Inr (concat (map (window_row b sw x y rw) [0..<Suc k]) @ replicate (rw * (rh - Suc k)) 0)"
proof -
  let ?row = "subarray b ((y + k) * sw + x) ((y + k) * sw + x + rw)"
  let ?pre = "concat (map (window_row b sw x y rw) [0..<k])"
  have len: "length ?row \<le> rw" by (rule length_subarray_le)
  have lp: "length ?pre = k * rw" by (simp add: mult.commute)
  from assms obtain d where d: "rh - k = Suc d" "rh - Suc k = d"
    by (cases "rh - k") auto
  have fits: "\<not> length (?pre @ replicate (rw * (rh - k)) 0) < k * rw + length ?row"
    using len lp d by simp
  have "drop (k * rw + length ?row) (?pre @ replicate (rw * (rh - k)) (0::8 word))
        = replicate (rw - length ?row) 0 @ replicate (rw * d) 0"
    using len lp d by (simp add: replicate_add [symmetric])
  then show ?thesis
    using fits lp d by (simp add: ta_set_def window_row_def Let_def)
qed

lemma extract_loop:
  "k \<le> rh \<Longrightarrow>
   foldl (\<lambda>regionBuffer j.
              case regionBuffer of
                Inl e \<Rightarrow> Inl e
              | Inr rb \<Rightarrow>
                  let sourceStart = (y + j) * sw + x;
                      targetStart = j * rw
                  in ta_set rb (subarray b sourceStart (sourceStart + rw)) targetStart)
       (Inr (replicate (rw * rh) 0)) [0..<k]
   = Inr (concat (map (window_row b sw x y rw) [0..<k]) @ replicate (rw * (rh - k)) 0)"
proof (induction k)
  case 0
  then show ?case by simp
next
  case (Suc k)
  then have "k < rh" by simp
  from extract_step [OF this, of b sw x y rw] Suc show ?case
    by (simp add: Let_def)
qed

lemma extractRegion_window:
  "extractRegion b sw x y rw rh = Inr (window b sw x y rw rh)"
  unfolding extractRegion_def window_def
  using extract_loop [of rh rh y sw x rw b] by simp

subsection \<open>The scan loops\<close>

lemma all_from_split:
  fixes i n :: nat
  assumes "i < n"
  shows "(\<forall>k. i \<le> k \<and> k < n \<longrightarrow> P k) = (P i \<and> (\<forall>k. i + 1 \<le> k \<and> k < n \<longrightarrow> P k))"
proof
  assume "\<forall>k. i \<le> k \<and> k < n \<longrightarrow> P k"
  with assms show "P i \<and> (\<forall>k. i + 1 \<le> k \<and> k < n \<longrightarrow> P k)" by simp
next
  assume r: "P i \<and> (\<forall>k. i + 1 \<le> k \<and> k < n \<longrightarrow> P k)"
  show "\<forall>k. i \<le> k \<and> k < n \<longrightarrow> P k"
  proof (intro allI impI)
    fix k assume k: "i \<le> k \<and> k < n"
    show "P k"
    proof (cases "k = i")
      case True
      with r show ?thesis by simp
    next
      case False
      with k have "i + 1 \<le> k \<and> k < n" by simp
      with r show ?thesis by blast
    qed
  qed
qed

lemma pixelLoop_False [simp]: "pixelLoop hb hw x y nw v j i False = False"
  by (subst pixelLoop.simps) simp

lemma pixelLoop_True:
  "pixelLoop hb hw x y nw v j i True =
     (\<forall>i'. i \<le> i' \<and> i' < nw \<longrightarrow> jseq (ta_get hb ((y + j) * hw + (x + i'))) v)"
proof (induction "nw - i" arbitrary: i)
  case 0
  then show ?case by (subst pixelLoop.simps) auto
next
  case (Suc d)
  then have lt: "i < nw" and d: "d = nw - (i + 1)" by simp_all
  define P where "P = (\<lambda>i'. jseq (ta_get hb ((y + j) * hw + (x + i'))) v)"
  have ih: "pixelLoop hb hw x y nw v j (i + 1) True = (\<forall>k. i + 1 \<le> k \<and> k < nw \<longrightarrow> P k)"
    using Suc.hyps(1) [OF d] by (simp add: P_def)
  have "pixelLoop hb hw x y nw v j i True = (P i \<and> (\<forall>k. i + 1 \<le> k \<and> k < nw \<longrightarrow> P k))"
    using lt ih by (subst pixelLoop.simps) (simp add: Let_def P_def)
  also have "\<dots> = (\<forall>k. i \<le> k \<and> k < nw \<longrightarrow> P k)"
    by (rule all_from_split [OF lt, symmetric])
  finally show ?case by (simp add: P_def)
qed

lemma rowLoop_False [simp]: "rowLoop hb hw x y nw nh v j False = False"
  by (subst rowLoop.simps) simp

lemma rowLoop_True:
  "rowLoop hb hw x y nw nh v j True =
     (\<forall>j'. j \<le> j' \<and> j' < nh \<longrightarrow>
        (\<forall>i<nw. jseq (ta_get hb ((y + j') * hw + (x + i))) v))"
proof (induction "nh - j" arbitrary: j)
  case 0
  then show ?case by (subst rowLoop.simps) auto
next
  case (Suc d)
  then have lt: "j < nh" and d: "d = nh - (j + 1)" by simp_all
  define R where "R = (\<lambda>j'. \<forall>i<nw. jseq (ta_get hb ((y + j') * hw + (x + i))) v)"
  have px: "pixelLoop hb hw x y nw v j 0 True = R j"
    by (simp add: pixelLoop_True R_def)
  have ih: "rowLoop hb hw x y nw nh v (j + 1) True = (\<forall>k. j + 1 \<le> k \<and> k < nh \<longrightarrow> R k)"
    using Suc.hyps(1) [OF d] by (simp add: R_def)
  have "rowLoop hb hw x y nw nh v j True = (R j \<and> (\<forall>k. j + 1 \<le> k \<and> k < nh \<longrightarrow> R k))"
    using lt ih px by (subst rowLoop.simps) (cases "R j"; simp)
  also have "\<dots> = (\<forall>k. j \<le> k \<and> k < nh \<longrightarrow> R k)"
    by (rule all_from_split [OF lt, symmetric])
  finally show ?case by (simp add: R_def)
qed

lemma rowLoop_window_equals:
  "rowLoop hb hw x y nw nh v 0 True = window_equals hb hw x y nw nh v"
  by (simp add: rowLoop_True window_equals_def)

lemma findUniformMatches_scan:
  "findUniformMatches hb hw hh nb nw nh v t =
     scan hw hh nw nh (\<lambda>x y. if window_equals hb hw x y nw nh v
                             then [new_MatchResult (Num 1) (new_Region x y nw nh) None] else [])"
  unfolding findUniformMatches_def scan_def Let_def rowLoop_window_equals
  by (rule trans [OF foldl_push [where f = "\<lambda>y. concat (map (\<lambda>x. if window_equals hb hw x y nw nh v
                             then [new_MatchResult (Num 1) (new_Region x y nw nh) None] else []) [0..<nat (int hw - int nw + 1)])"]])
     (simp_all add: foldl_push [where f = "\<lambda>x. if window_equals hb hw x y nw nh v
                             then [new_MatchResult (Num 1) (new_Region x y nw nh) None] else []" for y])

subsection \<open>The two branches of the search\<close>

lemma templateMatch_uniform:
  assumes "jseq (calculateStdDev rnd nb (calculateMean rnd nb)) (Num 0)"
  shows "templateMatch rnd hb hw hh nb nw nh t =
     Inr (scan hw hh nw nh (\<lambda>x y. if window_equals hb hw x y nw nh (calculateMean rnd nb)
                             then [new_MatchResult (Num 1) (new_Region x y nw nh) None] else []))"
  using assms by (simp add: templateMatch_def Let_def findUniformMatches_scan)

lemma templateMatch_general:
  assumes "\<not> jseq (calculateStdDev rnd nb (calculateMean rnd nb)) (Num 0)"
  shows "templateMatch rnd hb hw hh nb nw nh t =
     Inr (scan hw hh nw nh (\<lambda>x y. if jsge (window_confidence rnd hb hw nb nw nh x y) t
                             then [new_MatchResult (window_confidence rnd hb hw nb nw nh x y)
                                     (new_Region x y nw nh) None] else []))"
proof -
  let ?f = "\<lambda>x y. if jsge (window_confidence rnd hb hw nb nw nh x y) t
                             then [new_MatchResult (window_confidence rnd hb hw nb nw nh x y)
                                     (new_Region x y nw nh) None] else []"
  let ?X = "[0..<nat (int hw - int nw + 1)]"
  let ?step = "\<lambda>y matches x.
                      case matches of
                        Inl e \<Rightarrow> Inl e
                      | Inr ms \<Rightarrow>
                          (case extractRegion hb hw x y nw nh of
                             Inl e \<Rightarrow> Inl e
                           | Inr regionBuffer \<Rightarrow>
                               if jsge (calculateNCC rnd regionBuffer nb
                                                  (calculateMean rnd nb)
                                                  (calculateStdDev rnd nb (calculateMean rnd nb))) t
                                  then Inr (ms @ [new_MatchResult (calculateNCC rnd regionBuffer nb
                                                  (calculateMean rnd nb)
                                                  (calculateStdDev rnd nb (calculateMean rnd nb)))
                                                    (new_Region x y nw nh) None])
                                  else Inr ms)"
  have inner: "foldl (?step y) (Inr acc) ?X = Inr (acc @ concat (map (\<lambda>x. ?f x y) ?X))" for acc y
    by (rule foldl_push_Inr) (simp add: extractRegion_window window_confidence_def)
  have outer: "foldl (\<lambda>matches y. foldl (?step y) matches ?X) (Inr [])
                 [0..<nat (int hh - int nh + 1)]
               = Inr ([] @ concat (map (\<lambda>y. concat (map (\<lambda>x. ?f x y) ?X))
                                    [0..<nat (int hh - int nh + 1)]))"
    by (rule foldl_push_Inr) (simp add: inner)
  show ?thesis
    using assms outer unfolding templateMatch_def Let_def scan_def by simp
qed

lemma findMatches_validation:
  assumes "Image.width (haystack rq) < Image.width (needle rq)
           \<or> Image.height (haystack rq) < Image.height (needle rq)"
  shows "findMatches sharp rnd rq = Inl (Error ''Needle image is larger than haystack image'')"
  using assms by (simp add: findMatches_def Let_def)

lemma findMatches_templateMatch:
  assumes "\<not> (Image.width (haystack rq) < Image.width (needle rq)
           \<or> Image.height (haystack rq) < Image.height (needle rq))"
    and "imageToRawBuffer sharp (haystack rq) = Inr hb"
    and "imageToRawBuffer sharp (needle rq) = Inr nb"
  shows "findMatches sharp rnd rq =
           templateMatch rnd hb (Image.width (haystack rq)) (Image.height (haystack rq))
             nb (Image.width (needle rq)) (Image.height (needle rq)) (threshold rnd rq)"
  using assms by (simp add: findMatches_def Let_def threshold_def)

lemma findMatches_Inr_cases:
  assumes "findMatches sharp rnd rq = Inr ms"
  obtains hb nb where
    "\<not> (Image.width (haystack rq) < Image.width (needle rq)
           \<or> Image.height (haystack rq) < Image.height (needle rq))"
    "imageToRawBuffer sharp (haystack rq) = Inr hb"
    "imageToRawBuffer sharp (needle rq) = Inr nb"
  using assms by (auto simp: findMatches_def Let_def split: if_splits sum.splits)

subsection \<open>Order on numbers\<close>

lemma jsge_not_NaN: "jsge a b \<Longrightarrow> a \<noteq> NaN \<and> b \<noteq> NaN"
  by (cases a; cases b) simp_all

lemma jsge_refl: "a \<noteq> NaN \<Longrightarrow> jsge a a"
  by (cases a) simp_all

lemma jsge_trans: "jsge a b \<Longrightarrow> jsge b c \<Longrightarrow> jsge a c"
  by (cases a; cases b; cases c) simp_all

lemma jsgt_jsge_trans: "jsgt a b \<Longrightarrow> jsge b c \<Longrightarrow> jsgt a c"
  by (cases a; cases b; cases c) simp_all

lemma jsge_jsgt_trans: "jsge a b \<Longrightarrow> jsgt b c \<Longrightarrow> jsge a c"
  by (cases a; cases b; cases c) simp_all

lemma jsgt_imp_jsge: "jsgt a b \<Longrightarrow> jsge a b"
  by (cases a; cases b) simp_all

lemma not_jsgt_imp_jsge: "a \<noteq> NaN \<Longrightarrow> b \<noteq> NaN \<Longrightarrow> \<not> jsgt a b \<Longrightarrow> jsge b a"
  by (cases a; cases b) simp_all

subsection \<open>Members of a scan\<close>

lemma less_nat_Suc_iff: "(x < nat (a + 1)) = (int x \<le> a)"
  by linarith

lemma set_scan:
  "set (scan hw hh nw nh f) =
     {m. \<exists>x y. int x \<le> int hw - int nw \<and> int y \<le> int hh - int nh \<and> m \<in> set (f x y)}"
proof -
  have "m \<in> set (scan hw hh nw nh f) \<longleftrightarrow>
        (\<exists>x y. int x \<le> int hw - int nw \<and> int y \<le> int hh - int nh \<and> m \<in> set (f x y))" for m
    unfolding scan_def by (simp add: Bex_def less_nat_Suc_iff) blast
  then show ?thesis by blast
qed

subsection \<open>Selecting the best match\<close>

lemma findMatch_cases:
  "findMatch sharp rnd rq =
     (case findMatches sharp rnd rq of
        Inl e \<Rightarrow> new_MatchResult (Num 0) (new_Region 0 0 0 0) (Some e)
      | Inr [] \<Rightarrow> new_MatchResult (Num 0) (new_Region 0 0 0 0) (Some (Error ''No matches found''))
      | Inr (m # ms) \<Rightarrow> foldl pick_best m ms)"
  by (simp add: findMatch_def reduce_def pick_best_def [abs_def] split: sum.splits list.splits)

lemma foldl_pick_best_mem: "foldl pick_best m ms \<in> set (m # ms)"
proof (induction ms rule: rev_induct)
  case Nil
  then show ?case by simp
next
  case (snoc x xs)
  then show ?case by (auto simp: pick_best_def)
qed

lemma first_max_keep:
  assumes "first_max ms i"
    and "jsge (MatchResult.confidence (ms ! i)) (MatchResult.confidence x)"
  shows "first_max (ms @ [x]) i"
  using assms unfolding first_max_def
  by (auto simp: nth_append less_Suc_eq)

lemma first_max_replace:
  assumes "first_max ms i"
    and "jsgt (MatchResult.confidence x) (MatchResult.confidence (ms ! i))"
  shows "first_max (ms @ [x]) (length ms)"
proof -
  let ?c = "MatchResult.confidence"
  have nn: "?c x \<noteq> NaN" using assms(2) by (cases "?c x") simp_all
  have "jsgt (?c x) (?c (ms ! k))" if "k < length ms" for k
    using assms that jsgt_jsge_trans unfolding first_max_def by blast
  then show ?thesis
    unfolding first_max_def using nn
    by (auto simp: nth_append less_Suc_eq jsge_refl jsgt_imp_jsge)
qed

lemma foldl_pick_best_first_max:
  assumes "\<forall>m \<in> set (m0 # ms). MatchResult.confidence m \<noteq> NaN"
  shows "\<exists>i. foldl pick_best m0 ms = (m0 # ms) ! i \<and> first_max (m0 # ms) i"
  using assms
proof (induction ms rule: rev_induct)
  case Nil
  then show ?case by (simp add: first_max_def jsge_refl)
next
  case (snoc x xs)
  let ?c = "MatchResult.confidence"
  let ?l = "m0 # xs"
  from snoc obtain i where i: "foldl pick_best m0 xs = ?l ! i" and fm: "first_max ?l i"
    by auto
  from fm have il: "i < length ?l" by (simp add: first_max_def)
  from nth_mem [OF il] have "?l ! i \<in> set (m0 # xs @ [x])" by auto
  with snoc.prems have nn: "?c x \<noteq> NaN" "?c (?l ! i) \<noteq> NaN"
    by auto
  have app: "m0 # xs @ [x] = ?l @ [x]" by simp
  show ?case
  proof (cases "jsgt (?c x) (?c (?l ! i))")
    case True
    from first_max_replace [OF fm True] have "first_max (m0 # xs @ [x]) (length ?l)"
      by (simp only: app)
    moreover have "foldl pick_best m0 (xs @ [x]) = (m0 # xs @ [x]) ! length ?l"
      using True i by (simp only: app nth_append_length) (simp add: pick_best_def)
    ultimately show ?thesis by blast
  next
    case False
    then have "jsge (?c (?l ! i)) (?c x)"
      using nn by (simp add: not_jsgt_imp_jsge)
    from first_max_keep [OF fm this] have "first_max (m0 # xs @ [x]) i"
      by (simp only: app)
    moreover have "(m0 # xs @ [x]) ! i = ?l ! i"
      using il by (simp only: app nth_append) simp
    then have "foldl pick_best m0 (xs @ [x]) = (m0 # xs @ [x]) ! i"
      using False i by (simp add: pick_best_def)
    ultimately show ?thesis by blast
  qed
qed

lemma findMatches_confidence_not_NaN:
  assumes "findMatches sharp rnd rq = Inr ms" and "m \<in> set ms"
  shows "MatchResult.confidence m \<noteq> NaN"
proof -
  from assms(1) obtain hb nb where
    v: "\<not> (Image.width (haystack rq) < Image.width (needle rq)
           \<or> Image.height (haystack rq) < Image.height (needle rq))"
    and hb: "imageToRawBuffer sharp (haystack rq) = Inr hb"
    and nb: "imageToRawBuffer sharp (needle rq) = Inr nb"
    by (rule findMatches_Inr_cases)
  note tm = findMatches_templateMatch [OF v hb nb, of rnd]
  show ?thesis
  proof (cases "jseq (calculateStdDev rnd nb (calculateMean rnd nb)) (Num 0)")
    case True
    from assms tm templateMatch_uniform [OF True] show ?thesis
      by (auto simp: set_scan new_MatchResult_def split: if_splits)
  next
    case False
    from assms tm templateMatch_general [OF False] show ?thesis
      by (auto simp: set_scan new_MatchResult_def split: if_splits dest: jsge_not_NaN)
  qed
qed

subsection \<open>Evaluating the examples\<close>

lemmas example_defs = request_def gray_def raw_copy_def imageToRawBuffer_def threshold_def
  DEFAULT_CONFIDENCE_def

lemmas stats_defs = calculateMean_def calculateStdDev_def calculateNCC_def ta_get_def byte_num_def
  jssub_def jspow2_def jseq_def Let_def

lemmas scan_defs = scan_def window_equals_def window_confidence_def window_def window_row_def
  subarray_def new_MatchResult_def new_Region_def

lemma all_less_2: "(\<forall>i<2. P i) = (P 0 \<and> P (1::nat))"
  by (metis (full_types) One_nat_def less_2_cases_iff)

lemma mean_ex: "calculateMean (\<lambda>x. x) [9] = Num 9"
  by (simp add: stats_defs)

lemma std_ex: "calculateStdDev (\<lambda>x. x) [9] (Num 9) = Num 0"
  by (simp add: stats_defs)

lemma ex_uniform:
  "findMatches raw_copy (\<lambda>x. x) (request (gray 2 1 [7, 9]) (gray 1 1 [9]) None)
   = Inr [\<lparr>MatchResult.confidence = Num 1,
           location = \<lparr>left = 1, top = 0, width = 1, height = 1\<rparr>, error = None\<rparr>]"
proof -
  have u: "jseq (calculateStdDev (\<lambda>x. x) [9] (calculateMean (\<lambda>x. x) [9])) (Num 0)"
    by (simp add: mean_ex std_ex jseq_def)
  show ?thesis
    by (subst findMatches_templateMatch [where hb = "[7, 9]" and nb = "[9]"])
       (simp_all add: example_defs templateMatch_uniform [OF u] mean_ex scan_defs ta_get_def
          byte_num_def jseq_def upt_rec)
qed

lemma mean_02: "calculateMean (\<lambda>x. x) [0, 2] = Num 1"
  by (simp add: stats_defs upt_rec)

lemma std_02: "calculateStdDev (\<lambda>x. x) [0, 2] (Num 1) = Num 1"
  by (simp add: stats_defs upt_rec)

lemma ncc_02_02: "calculateNCC (\<lambda>x. x) [0, 2] [0, 2] (Num 1) (Num 1) = Num 1"
  by (simp add: calculateNCC_def mean_02 std_02 Let_def jseq_def jssub_def ta_get_def byte_num_def upt_rec)

lemma mean_20: "calculateMean (\<lambda>x. x) [2, 0] = Num 1"
  by (simp add: stats_defs upt_rec)

lemma std_20: "calculateStdDev (\<lambda>x. x) [2, 0] (Num 1) = Num 1"
  by (simp add: stats_defs upt_rec)

lemma ncc_20_02: "calculateNCC (\<lambda>x. x) [2, 0] [0, 2] (Num 1) (Num 1) = Num 0"
  by (simp add: calculateNCC_def mean_20 std_20 Let_def jseq_def jssub_def ta_get_def byte_num_def upt_rec)

lemma ex_general:
  "findMatches raw_copy (\<lambda>x. x) (request (gray 4 1 [0, 2, 0, 2]) (gray 2 1 [0, 2]) (Some (Num (1 / 2))))
   = Inr [\<lparr>MatchResult.confidence = Num 1,
           location = \<lparr>left = 0, top = 0, width = 2, height = 1\<rparr>, error = None\<rparr>,
          \<lparr>MatchResult.confidence = Num 1,
           location = \<lparr>left = 2, top = 0, width = 2, height = 1\<rparr>, error = None\<rparr>]"
proof -
  have g: "\<not> jseq (calculateStdDev (\<lambda>x. x) [0, 2] (calculateMean (\<lambda>x. x) [0, 2])) (Num 0)"
    by (simp add: mean_02 std_02 jseq_def)
  show ?thesis
    by (subst findMatches_templateMatch [where hb = "[0, 2, 0, 2]" and nb = "[0, 2]"])
       (simp_all add: example_defs templateMatch_general [OF g] mean_02 std_02 scan_defs
          ncc_02_02 ncc_20_02 upt_rec)
qed

subsection \<open>Raster order\<close>

lemma sorted_wrt_concat_map:
  assumes "sorted_wrt Q ys"
    and "\<And>y. y \<in> set ys \<Longrightarrow> sorted_wrt R (g y)"
    and "\<And>y y' a b. Q y y' \<Longrightarrow> a \<in> set (g y) \<Longrightarrow> b \<in> set (g y') \<Longrightarrow> R a b"
  shows "sorted_wrt R (concat (map g ys))"
  using assms
proof (induction ys)
  case Nil
  then show ?case by simp
next
  case (Cons y ys)
  then show ?case by (auto simp: sorted_wrt_append)
qed

lemma scan_raster_sorted:
  assumes "\<And>x y m. m \<in> set (f x y) \<Longrightarrow> left (location m) = x \<and> top (location m) = y"
    and "\<And>x y. length (f x y) \<le> 1"
  shows "sorted_wrt raster_before (map location (scan hw hh nw nh f))"
proof -
  let ?R = "\<lambda>a b. raster_before (location a) (location b)"
  have one: "sorted_wrt ?R (f x y)" for x y
    using assms(2) [of x y] by (cases "f x y") (simp_all add: le_Suc_eq)
  have row: "sorted_wrt ?R (concat (map (\<lambda>x. f x y) [0..<n]))" for y n
  proof (rule sorted_wrt_concat_map [where Q = "(<)"])
    show "sorted_wrt (<) [0..<n]" by simp
  next
    fix x show "sorted_wrt ?R (f x y)" by (rule one)
  next
    fix x x' a b assume "x < x'" "a \<in> set (f x y)" "b \<in> set (f x' y)"
    then show "?R a b"
      using assms(1) [of a x y] assms(1) [of b x' y] by (simp add: raster_before_def)
  qed
  have "sorted_wrt ?R (scan hw hh nw nh f)"
    unfolding scan_def
  proof (rule sorted_wrt_concat_map [where Q = "(<)"])
    show "sorted_wrt (<) [0..<nat (int hh - int nh + 1)]" by simp
  next
    fix y show "sorted_wrt ?R (concat (map (\<lambda>x. f x y) [0..<nat (int hw - int nw + 1)]))"
      by (rule row)
  next
    fix y y' a b
    assume "y < y'" "a \<in> set (concat (map (\<lambda>x. f x y) [0..<nat (int hw - int nw + 1)]))"
      "b \<in> set (concat (map (\<lambda>x. f x y') [0..<nat (int hw - int nw + 1)]))"
    then show "?R a b"
      using assms(1) by (fastforce simp: raster_before_def)
  qed
  then show ?thesis by (simp add: sorted_wrt_map)
qed


lemma ex_empty:
  "findMatches raw_copy (\<lambda>x. x) (request (gray 1 1 [0]) (gray 1 1 [9]) None) = Inr []"
proof -
  have u: "jseq (calculateStdDev (\<lambda>x. x) [9] (calculateMean (\<lambda>x. x) [9])) (Num 0)"
    by (simp add: mean_ex std_ex jseq_def)
  show ?thesis
    by (subst findMatches_templateMatch [where hb = "[0]" and nb = "[9]"])
       (simp_all add: example_defs templateMatch_uniform [OF u] mean_ex scan_defs ta_get_def
          byte_num_def jseq_def upt_rec)
qed

lemma ex_too_large:
  "findMatches raw_copy (\<lambda>x. x) (request (gray 1 1 [0]) (gray 2 1 [0, 0]) None)
   = Inl (Error ''Needle image is larger than haystack image'')"
  by (simp add: findMatches_validation example_defs)

section \<open>The claims\<close>

text \<open>
  Claim C1.  \<open>findMatch\<close> never throws; the model returns a \<open>MatchResult\<close> in each
  of the three outcomes of \<open>findMatches\<close>.  An error thrown by \<open>findMatches\<close> comes back
  embedded in a result with confidence 0 and location \<open>Region(0,0,0,0)\<close>; an empty list
  gives the same result with the error ``No matches found''; a non-empty list gives one of
  its elements.
\<close>

theorem findMatch_never_throws:
  "(\<forall>e. findMatches sharp rnd rq = Inl e \<longrightarrow>
      findMatch sharp rnd rq =
        \<lparr>MatchResult.confidence = Num 0,
         location = \<lparr>left = 0, top = 0, width = 0, height = 0\<rparr>, error = Some e\<rparr>)
   \<and> (findMatches sharp rnd rq = Inr [] \<longrightarrow>
      findMatch sharp rnd rq =
        \<lparr>MatchResult.confidence = Num 0,
         location = \<lparr>left = 0, top = 0, width = 0, height = 0\<rparr>,
         error = Some (Error ''No matches found'')\<rparr>)
   \<and> (\<forall>ms. findMatches sharp rnd rq = Inr ms \<and> ms \<noteq> [] \<longrightarrow>
      findMatch sharp rnd rq \<in> set ms)"
proof (intro conjI allI impI)
  fix e assume "findMatches sharp rnd rq = Inl e"
  then show "findMatch sharp rnd rq =
        \<lparr>MatchResult.confidence = Num 0,
         location = \<lparr>left = 0, top = 0, width = 0, height = 0\<rparr>, error = Some e\<rparr>"
    by (simp add: findMatch_cases new_MatchResult_def new_Region_def)
next
  assume "findMatches sharp rnd rq = Inr []"
  then show "findMatch sharp rnd rq =
        \<lparr>MatchResult.confidence = Num 0,
         location = \<lparr>left = 0, top = 0, width = 0, height = 0\<rparr>,
         error = Some (Error ''No matches found'')\<rparr>"
    by (simp add: findMatch_cases new_MatchResult_def new_Region_def)
next
  fix ms assume "findMatches sharp rnd rq = Inr ms \<and> ms \<noteq> []"
  then obtain m rest where "findMatches sharp rnd rq = Inr (m # rest)" "ms = m # rest"
    by (cases ms) auto
  then show "findMatch sharp rnd rq \<in> set ms"
    using foldl_pick_best_mem [of m rest] by (simp add: findMatch_cases)
qed

theorem findMatch_never_throws_witness:
  "findMatch raw_copy (\<lambda>x. x) (request (gray 1 1 [0]) (gray 2 1 [0, 0]) None) =
     \<lparr>MatchResult.confidence = Num 0,
      location = \<lparr>left = 0, top = 0, width = 0, height = 0\<rparr>,
      error = Some (Error ''Needle image is larger than haystack image'')\<rparr>
   \<and> findMatch raw_copy (\<lambda>x. x) (request (gray 1 1 [0]) (gray 1 1 [9]) None) =
     \<lparr>MatchResult.confidence = Num 0,
      location = \<lparr>left = 0, top = 0, width = 0, height = 0\<rparr>,
      error = Some (Error ''No matches found'')\<rparr>
   \<and> findMatch raw_copy (\<lambda>x. x) (request (gray 2 1 [7, 9]) (gray 1 1 [9]) None) =
     \<lparr>MatchResult.confidence = Num 1,
      location = \<lparr>left = 1, top = 0, width = 1, height = 1\<rparr>, error = None\<rparr>"
  using findMatch_never_throws [of raw_copy "\<lambda>x. x" "request (gray 1 1 [0]) (gray 2 1 [0, 0]) None"]
    findMatch_never_throws [of raw_copy "\<lambda>x. x" "request (gray 1 1 [0]) (gray 1 1 [9]) None"]
    findMatch_never_throws [of raw_copy "\<lambda>x. x" "request (gray 2 1 [7, 9]) (gray 1 1 [9]) None"]
    ex_too_large ex_empty ex_uniform
  by simp

text \<open>
  Claim C2.  When the needle is strictly wider or strictly taller than the haystack,
  \<open>findMatches\<close> throws the validation error, whatever the converter would do with the
  images (nothing is converted or scanned), and \<open>findMatch\<close> returns that error embedded
  in a result with confidence 0 and location \<open>Region(0,0,0,0)\<close>.
\<close>

theorem needle_larger_than_haystack:
  assumes "Image.width (needle rq) > Image.width (haystack rq)
           \<or> Image.height (needle rq) > Image.height (haystack rq)"
  shows "findMatches sharp rnd rq = Inl (Error ''Needle image is larger than haystack image'')
         \<and> findMatch sharp rnd rq =
             \<lparr>MatchResult.confidence = Num 0,
              location = \<lparr>left = 0, top = 0, width = 0, height = 0\<rparr>,
              error = Some (Error ''Needle image is larger than haystack image'')\<rparr>"
  using assms
  by (simp add: findMatch_cases findMatches_validation new_MatchResult_def new_Region_def)

theorem needle_larger_than_haystack_witness:
  "(Image.width (gray 3 2 [0, 0, 0, 0, 0, 0]) > Image.width (gray 2 2 [1, 2, 3, 4])
      \<or> Image.height (gray 3 2 [0, 0, 0, 0, 0, 0]) > Image.height (gray 2 2 [1, 2, 3, 4]))
   \<and> findMatches raw_copy (\<lambda>x. x)
        (request (gray 2 2 [1, 2, 3, 4]) (gray 3 2 [0, 0, 0, 0, 0, 0]) None)
      = Inl (Error ''Needle image is larger than haystack image'')
   \<and> findMatch raw_copy (\<lambda>x. x)
        (request (gray 2 2 [1, 2, 3, 4]) (gray 3 2 [0, 0, 0, 0, 0, 0]) None)
      = \<lparr>MatchResult.confidence = Num 0,
         location = \<lparr>left = 0, top = 0, width = 0, height = 0\<rparr>,
         error = Some (Error ''Needle image is larger than haystack image'')\<rparr>"
  using needle_larger_than_haystack
          [of "request (gray 2 2 [1, 2, 3, 4]) (gray 3 2 [0, 0, 0, 0, 0, 0]) None" raw_copy "\<lambda>x. x"]
  by (simp add: request_def gray_def)

text \<open>
  Claim C4.  On a non-empty list of matches \<open>findMatch\<close> is the linear reduction that
  replaces the current best only by a strictly greater confidence; its result is the
  element at the first index whose confidence is maximal: no confidence in the list is
  greater, and every earlier one is strictly smaller.
\<close>

theorem findMatch_first_maximum:
  assumes "findMatches sharp rnd rq = Inr ms" and "ms \<noteq> []"
  shows "findMatch sharp rnd rq =
           foldl (\<lambda>best current.
                    if jsgt (MatchResult.confidence current) (MatchResult.confidence best)
                    then current else best) (hd ms) (tl ms)
         \<and> (\<exists>i<length ms.
               findMatch sharp rnd rq = ms ! i
               \<and> (\<forall>k<length ms. jsge (MatchResult.confidence (ms ! i))
                                      (MatchResult.confidence (ms ! k)))
               \<and> (\<forall>k<i. jsgt (MatchResult.confidence (ms ! i))
                              (MatchResult.confidence (ms ! k))))"
proof -
  from assms(2) obtain m rest where ms: "ms = m # rest" by (cases ms) auto
  have fm: "findMatch sharp rnd rq = foldl pick_best m rest"
    using assms(1) ms by (simp add: findMatch_cases)
  have "\<forall>m' \<in> set (m # rest). MatchResult.confidence m' \<noteq> NaN"
    using findMatches_confidence_not_NaN [OF assms(1)] ms by blast
  from foldl_pick_best_first_max [OF this] obtain i where
    "foldl pick_best m rest = (m # rest) ! i" "first_max (m # rest) i"
    by blast
  with fm ms show ?thesis
    unfolding first_max_def by (auto simp: pick_best_def [abs_def])
qed

theorem findMatch_first_maximum_witness:
  "findMatches raw_copy (\<lambda>x. x)
     (request (gray 4 1 [0, 2, 0, 2]) (gray 2 1 [0, 2]) (Some (Num (1 / 2))))
   = Inr [\<lparr>MatchResult.confidence = Num 1,
           location = \<lparr>left = 0, top = 0, width = 2, height = 1\<rparr>, error = None\<rparr>,
          \<lparr>MatchResult.confidence = Num 1,
           location = \<lparr>left = 2, top = 0, width = 2, height = 1\<rparr>, error = None\<rparr>]
   \<and> findMatch raw_copy (\<lambda>x. x)
       (request (gray 4 1 [0, 2, 0, 2]) (gray 2 1 [0, 2]) (Some (Num (1 / 2))))
     = \<lparr>MatchResult.confidence = Num 1,
        location = \<lparr>left = 0, top = 0, width = 2, height = 1\<rparr>, error = None\<rparr>"
proof -
  have "findMatch raw_copy (\<lambda>x. x)
       (request (gray 4 1 [0, 2, 0, 2]) (gray 2 1 [0, 2]) (Some (Num (1 / 2))))
     = \<lparr>MatchResult.confidence = Num 1,
        location = \<lparr>left = 0, top = 0, width = 2, height = 1\<rparr>, error = None\<rparr>"
    using findMatch_first_maximum [OF ex_general] by simp
  with ex_general show ?thesis by simp
qed

lemma set_scan_mono:
  assumes "\<And>x y. set (f x y) \<subseteq> set (g x y)"
  shows "set (scan hw hh nw nh f) \<subseteq> set (scan hw hh nw nh g)"
  unfolding set_scan using assms by blast

text \<open>
  Claim C9.  In the general case (the needle's standard deviation is not 0)
  \<open>findMatches\<close> visits the offsets row by row from the top and in each row from the left,
  keeps a result for each offset whose confidence reaches the threshold, and returns
  them in the order of the visit: the regions of the returned list are strictly
  increasing in raster order, whatever their confidences.
\<close>

theorem findMatches_raster_order:
  assumes "\<not> (Image.width (haystack rq) < Image.width (needle rq)
              \<or> Image.height (haystack rq) < Image.height (needle rq))"
    and "imageToRawBuffer sharp (haystack rq) = Inr hb"
    and "imageToRawBuffer sharp (needle rq) = Inr nb"
    and "\<not> jseq (calculateStdDev rnd nb (calculateMean rnd nb)) (Num 0)"
  shows "\<exists>ms. findMatches sharp rnd rq = Inr ms
           \<and> ms = concat (map (\<lambda>y. concat (map (\<lambda>x.
                     if jsge (window_confidence rnd hb (Image.width (haystack rq)) nb
                                (Image.width (needle rq)) (Image.height (needle rq)) x y)
                             (threshold rnd rq)
                     then [\<lparr>MatchResult.confidence =
                              window_confidence rnd hb (Image.width (haystack rq)) nb
                                (Image.width (needle rq)) (Image.height (needle rq)) x y,
                            location = \<lparr>left = x, top = y, width = Image.width (needle rq),
                                          height = Image.height (needle rq)\<rparr>,
                            error = None\<rparr>]
                     else [])
                   [0..<nat (int (Image.width (haystack rq)) - int (Image.width (needle rq)) + 1)]))
                 [0..<nat (int (Image.height (haystack rq)) - int (Image.height (needle rq)) + 1)])
           \<and> sorted_wrt raster_before (map location ms)"
proof -
  let ?f = "\<lambda>x y. if jsge (window_confidence rnd hb (Image.width (haystack rq)) nb
                                (Image.width (needle rq)) (Image.height (needle rq)) x y)
                             (threshold rnd rq)
                     then [new_MatchResult
                             (window_confidence rnd hb (Image.width (haystack rq)) nb
                                (Image.width (needle rq)) (Image.height (needle rq)) x y)
                             (new_Region x y (Image.width (needle rq)) (Image.height (needle rq)))
                             None]
                     else []"
  have eq: "findMatches sharp rnd rq =
          Inr (scan (Image.width (haystack rq)) (Image.height (haystack rq))
                 (Image.width (needle rq)) (Image.height (needle rq)) ?f)"
    using findMatches_templateMatch [OF assms(1-3)] templateMatch_general [OF assms(4)]
    by simp
  have "sorted_wrt raster_before
          (map location (scan (Image.width (haystack rq)) (Image.height (haystack rq))
                 (Image.width (needle rq)) (Image.height (needle rq)) ?f))"
    by (rule scan_raster_sorted) (simp_all add: new_MatchResult_def new_Region_def)
  then have "sorted_wrt raster_before
          (map location (projr (findMatches sharp rnd rq)))"
    by (simp add: eq)
  moreover note eq [unfolded scan_def new_MatchResult_def new_Region_def]
  ultimately show ?thesis
    by (intro exI [of _ "projr (findMatches sharp rnd rq)"]) simp
qed

lemma ex_order:
  "findMatches raw_copy (\<lambda>x. x) (request (gray 3 1 [2, 0, 2]) (gray 2 1 [0, 2]) (Some (Num 0)))
   = Inr [\<lparr>MatchResult.confidence = Num 0,
           location = \<lparr>left = 0, top = 0, width = 2, height = 1\<rparr>, error = None\<rparr>,
          \<lparr>MatchResult.confidence = Num 1,
           location = \<lparr>left = 1, top = 0, width = 2, height = 1\<rparr>, error = None\<rparr>]"
proof -
  have g: "\<not> jseq (calculateStdDev (\<lambda>x. x) [0, 2] (calculateMean (\<lambda>x. x) [0, 2])) (Num 0)"
    by (simp add: mean_02 std_02 jseq_def)
  show ?thesis
    by (subst findMatches_templateMatch [where hb = "[2, 0, 2]" and nb = "[0, 2]"])
       (simp_all add: example_defs templateMatch_general [OF g] mean_02 std_02 scan_defs
          ncc_02_02 ncc_20_02 upt_rec)
qed

theorem findMatches_raster_order_witness:
  "\<not> (Image.width (gray 3 1 [2, 0, 2]) < Image.width (gray 2 1 [0, 2])
       \<or> Image.height (gray 3 1 [2, 0, 2]) < Image.height (gray 2 1 [0, 2]))
   \<and> imageToRawBuffer raw_copy (gray 3 1 [2, 0, 2]) = Inr [2, 0, 2]
   \<and> imageToRawBuffer raw_copy (gray 2 1 [0, 2]) = Inr [0, 2]
   \<and> \<not> jseq (calculateStdDev (\<lambda>x. x) [0, 2] (calculateMean (\<lambda>x. x) [0, 2])) (Num 0)
   \<and> (\<exists>ms. findMatches raw_copy (\<lambda>x. x)
               (request (gray 3 1 [2, 0, 2]) (gray 2 1 [0, 2]) (Some (Num 0))) = Inr ms
          \<and> map MatchResult.confidence ms = [Num 0, Num 1]
          \<and> map location ms = [\<lparr>left = 0, top = 0, width = 2, height = 1\<rparr>,
                                 \<lparr>left = 1, top = 0, width = 2, height = 1\<rparr>]
          \<and> sorted_wrt raster_before (map location ms))"
proof -
  let ?rq = "request (gray 3 1 [2, 0, 2]) (gray 2 1 [0, 2]) (Some (Num 0))"
  have v: "\<not> (Image.width (haystack ?rq) < Image.width (needle ?rq)
              \<or> Image.height (haystack ?rq) < Image.height (needle ?rq))"
    by (simp add: example_defs)
  have hb: "imageToRawBuffer raw_copy (haystack ?rq) = Inr [2, 0, 2]"
    by (simp add: example_defs)
  have nb: "imageToRawBuffer raw_copy (needle ?rq) = Inr [0, 2]"
    by (simp add: example_defs)
  have g: "\<not> jseq (calculateStdDev (\<lambda>x. x) [0, 2] (calculateMean (\<lambda>x. x) [0, 2])) (Num 0)"
    by (simp add: mean_02 std_02 jseq_def)
  from findMatches_raster_order [OF v hb nb g] obtain ms where
    ms: "findMatches raw_copy (\<lambda>x. x) ?rq = Inr ms"
    and srt: "sorted_wrt raster_before (map location ms)"
    by blast
  from ms ex_order have "ms = [\<lparr>MatchResult.confidence = Num 0,
           location = \<lparr>left = 0, top = 0, width = 2, height = 1\<rparr>, error = None\<rparr>,
          \<lparr>MatchResult.confidence = Num 1,
           location = \<lparr>left = 1, top = 0, width = 2, height = 1\<rparr>, error = None\<rparr>]"
    by simp
  with ms srt v hb nb g show ?thesis
    by (simp add: request_def)
qed

lemma templateMatch_Inr: "\<exists>ms. templateMatch rnd hb hw hh nb nw nh t = Inr ms"
  by (cases "jseq (calculateStdDev rnd nb (calculateMean rnd nb)) (Num 0)")
     (simp_all add: templateMatch_uniform templateMatch_general)

lemma findMatches_Inl_threshold:
  assumes "findMatches sharp rnd (rq\<lparr>MatchRequest.confidence := c\<rparr>) = Inl e"
  shows "findMatches sharp rnd (rq\<lparr>MatchRequest.confidence := c'\<rparr>) = Inl e"
proof -
  have "\<And>t. templateMatch rnd hb hw hh nb nw nh t \<noteq> Inl e" for hb hw hh nb nw nh
    using templateMatch_Inr [of rnd hb hw hh nb nw nh] by (metis Inl_Inr_False)
  with assms show ?thesis
    by (auto simp: findMatches_def Let_def split: if_splits sum.splits)
qed

text \<open>
  Claim C6.  For the same haystack and needle and two thresholds \<open>t1 < t2\<close>, every match
  returned at \<open>t2\<close> is returned at \<open>t1\<close>, so the regions found at \<open>t2\<close> are among those
  found at \<open>t1\<close>; and when the search at \<open>t2\<close> throws, the search at \<open>t1\<close> throws the
  same error.
\<close>

theorem threshold_monotone:
  assumes "jsgt (threshold rnd (rq\<lparr>MatchRequest.confidence := c2\<rparr>))
                (threshold rnd (rq\<lparr>MatchRequest.confidence := c1\<rparr>))"
  shows "(\<forall>e. findMatches sharp rnd (rq\<lparr>MatchRequest.confidence := c2\<rparr>) = Inl e \<longrightarrow>
              findMatches sharp rnd (rq\<lparr>MatchRequest.confidence := c1\<rparr>) = Inl e)
       \<and> (\<forall>ms2. findMatches sharp rnd (rq\<lparr>MatchRequest.confidence := c2\<rparr>) = Inr ms2 \<longrightarrow>
              (\<exists>ms1. findMatches sharp rnd (rq\<lparr>MatchRequest.confidence := c1\<rparr>) = Inr ms1
                     \<and> set ms2 \<subseteq> set ms1
                     \<and> location ` set ms2 \<subseteq> location ` set ms1))"
proof (intro conjI allI impI)
  fix e assume "findMatches sharp rnd (rq\<lparr>MatchRequest.confidence := c2\<rparr>) = Inl e"
  then show "findMatches sharp rnd (rq\<lparr>MatchRequest.confidence := c1\<rparr>) = Inl e"
    by (rule findMatches_Inl_threshold)
next
  fix ms2 assume r2: "findMatches sharp rnd (rq\<lparr>MatchRequest.confidence := c2\<rparr>) = Inr ms2"
  let ?rq1 = "rq\<lparr>MatchRequest.confidence := c1\<rparr>" and ?rq2 = "rq\<lparr>MatchRequest.confidence := c2\<rparr>"
  let ?hw = "Image.width (haystack rq)" and ?hh = "Image.height (haystack rq)"
  let ?nw = "Image.width (needle rq)" and ?nh = "Image.height (needle rq)"
  from r2 obtain hb nb where
    v: "\<not> (?hw < ?nw \<or> ?hh < ?nh)"
    and hb: "imageToRawBuffer sharp (haystack rq) = Inr hb"
    and nb: "imageToRawBuffer sharp (needle rq) = Inr nb"
    by (rule findMatches_Inr_cases) simp
  have tm: "findMatches sharp rnd (rq\<lparr>MatchRequest.confidence := c\<rparr>)
            = templateMatch rnd hb ?hw ?hh nb ?nw ?nh (threshold rnd (rq\<lparr>MatchRequest.confidence := c\<rparr>))" for c
    using findMatches_templateMatch [of "rq\<lparr>MatchRequest.confidence := c\<rparr>" sharp hb nb rnd] v hb nb
    by simp
  obtain ms1 where r1: "findMatches sharp rnd ?rq1 = Inr ms1"
    using templateMatch_Inr tm by metis
  have "set ms2 \<subseteq> set ms1"
  proof (cases "jseq (calculateStdDev rnd nb (calculateMean rnd nb)) (Num 0)")
    case True
    from r1 r2 show ?thesis
      unfolding tm templateMatch_uniform [OF True] by simp
  next
    case False
    have "jsge c (threshold rnd ?rq1)" if "jsge c (threshold rnd ?rq2)" for c
      using that assms by (rule jsge_jsgt_trans)
    then have "set (scan ?hw ?hh ?nw ?nh (\<lambda>x y. if jsge (window_confidence rnd hb ?hw nb ?nw ?nh x y) (threshold rnd ?rq2)
                             then [new_MatchResult (window_confidence rnd hb ?hw nb ?nw ?nh x y)
                                     (new_Region x y ?nw ?nh) None] else []))
          \<subseteq> set (scan ?hw ?hh ?nw ?nh (\<lambda>x y. if jsge (window_confidence rnd hb ?hw nb ?nw ?nh x y) (threshold rnd ?rq1)
                             then [new_MatchResult (window_confidence rnd hb ?hw nb ?nw ?nh x y)
                                     (new_Region x y ?nw ?nh) None] else []))"
      by (intro set_scan_mono) auto
    with r1 r2 show ?thesis
      unfolding tm templateMatch_general [OF False] by simp
  qed
  with r1 show "\<exists>ms1. findMatches sharp rnd ?rq1 = Inr ms1 \<and> set ms2 \<subseteq> set ms1
                     \<and> location ` set ms2 \<subseteq> location ` set ms1"
    by blast
qed

lemma ex_half:
  "findMatches raw_copy (\<lambda>x. x) (request (gray 3 1 [2, 0, 2]) (gray 2 1 [0, 2]) (Some (Num (1 / 2))))
   = Inr [\<lparr>MatchResult.confidence = Num 1,
           location = \<lparr>left = 1, top = 0, width = 2, height = 1\<rparr>, error = None\<rparr>]"
proof -
  have g: "\<not> jseq (calculateStdDev (\<lambda>x. x) [0, 2] (calculateMean (\<lambda>x. x) [0, 2])) (Num 0)"
    by (simp add: mean_02 std_02 jseq_def)
  show ?thesis
    by (subst findMatches_templateMatch [where hb = "[2, 0, 2]" and nb = "[0, 2]"])
       (simp_all add: example_defs templateMatch_general [OF g] mean_02 std_02 scan_defs
          ncc_02_02 ncc_20_02 upt_rec)
qed

theorem threshold_monotone_witness:
  "jsgt (threshold (\<lambda>x. x) (request (gray 3 1 [2, 0, 2]) (gray 2 1 [0, 2]) (Some (Num (1 / 2)))))
        (threshold (\<lambda>x. x) (request (gray 3 1 [2, 0, 2]) (gray 2 1 [0, 2]) (Some (Num 0))))
   \<and> (\<exists>ms1. findMatches raw_copy (\<lambda>x. x)
                (request (gray 3 1 [2, 0, 2]) (gray 2 1 [0, 2]) (Some (Num 0))) = Inr ms1
            \<and> \<lparr>MatchResult.confidence = Num 1,
                location = \<lparr>left = 1, top = 0, width = 2, height = 1\<rparr>, error = None\<rparr> \<in> set ms1
            \<and> \<lparr>left = 1, top = 0, width = 2, height = 1\<rparr> \<in> location ` set ms1)"
proof -
  let ?rq = "request (gray 3 1 [2, 0, 2]) (gray 2 1 [0, 2]) None"
  have up: "?rq\<lparr>MatchRequest.confidence := c\<rparr> = request (gray 3 1 [2, 0, 2]) (gray 2 1 [0, 2]) c" for c
    by (simp add: request_def)
  have lt: "jsgt (threshold (\<lambda>x. x) (?rq\<lparr>MatchRequest.confidence := Some (Num (1 / 2))\<rparr>))
                 (threshold (\<lambda>x. x) (?rq\<lparr>MatchRequest.confidence := Some (Num 0)\<rparr>))"
    by (simp add: threshold_def)
  from threshold_monotone [OF lt, of raw_copy] ex_half
  obtain ms1 where "findMatches raw_copy (\<lambda>x. x)
                (request (gray 3 1 [2, 0, 2]) (gray 2 1 [0, 2]) (Some (Num 0))) = Inr ms1"
    and "set [\<lparr>MatchResult.confidence = Num 1,
           location = \<lparr>left = 1, top = 0, width = 2, height = 1\<rparr>, error = None\<rparr>] \<subseteq> set ms1"
    and "location ` set [\<lparr>MatchResult.confidence = Num 1,
           location = \<lparr>left = 1, top = 0, width = 2, height = 1\<rparr>, error = None\<rparr>]
         \<subseteq> location ` set ms1"
    unfolding up by blast
  then show ?thesis using lt unfolding up by auto
qed

text \<open>
  Claim C10.  In the degenerate branch (the needle's standard deviation is 0) the
  requested threshold is not consulted: whatever the request's confidence is, absent
  or any number, also one above 1, \<open>findMatches\<close> returns the same list, which holds a
  match of confidence 1 for every window equal to the needle value.
\<close>

theorem uniform_needle_ignores_threshold:
  assumes "\<not> (Image.width (haystack rq) < Image.width (needle rq)
              \<or> Image.height (haystack rq) < Image.height (needle rq))"
    and "imageToRawBuffer sharp (haystack rq) = Inr hb"
    and "imageToRawBuffer sharp (needle rq) = Inr nb"
    and "jseq (calculateStdDev rnd nb (calculateMean rnd nb)) (Num 0)"
  shows "\<exists>ms. (\<forall>c. findMatches sharp rnd (rq\<lparr>MatchRequest.confidence := c\<rparr>) = Inr ms)
           \<and> (\<forall>m \<in> set ms. MatchResult.confidence m = Num 1)
           \<and> (\<forall>x y. int x \<le> int (Image.width (haystack rq)) - int (Image.width (needle rq))
                   \<and> int y \<le> int (Image.height (haystack rq)) - int (Image.height (needle rq))
                   \<and> window_equals hb (Image.width (haystack rq)) x y
                         (Image.width (needle rq)) (Image.height (needle rq)) (calculateMean rnd nb)
                 \<longrightarrow> \<lparr>MatchResult.confidence = Num 1,
                       location = \<lparr>left = x, top = y, width = Image.width (needle rq),
                                     height = Image.height (needle rq)\<rparr>,
                       error = None\<rparr> \<in> set ms)"
proof -
  let ?hw = "Image.width (haystack rq)" and ?hh = "Image.height (haystack rq)"
  let ?nw = "Image.width (needle rq)" and ?nh = "Image.height (needle rq)"
  let ?ms = "scan ?hw ?hh ?nw ?nh (\<lambda>x y. if window_equals hb ?hw x y ?nw ?nh (calculateMean rnd nb)
                             then [new_MatchResult (Num 1) (new_Region x y ?nw ?nh) None] else [])"
  have "findMatches sharp rnd (rq\<lparr>MatchRequest.confidence := c\<rparr>) = Inr ?ms" for c
    using findMatches_templateMatch [of "rq\<lparr>MatchRequest.confidence := c\<rparr>" sharp hb nb rnd]
      assms(1-3) templateMatch_uniform [OF assms(4)]
    by simp
  moreover have "\<forall>m \<in> set ?ms. MatchResult.confidence m = Num 1"
    by (auto simp: set_scan new_MatchResult_def split: if_splits)
  moreover have "\<lparr>MatchResult.confidence = Num 1,
                       location = \<lparr>left = x, top = y, width = ?nw, height = ?nh\<rparr>,
                       error = None\<rparr> \<in> set ?ms"
    if "int x \<le> int ?hw - int ?nw" "int y \<le> int ?hh - int ?nh"
       "window_equals hb ?hw x y ?nw ?nh (calculateMean rnd nb)" for x y
    unfolding set_scan using that
    by (simp add: new_MatchResult_def new_Region_def)
  ultimately show ?thesis by blast
qed

lemma keeps_sign_id: "keeps_sign (\<lambda>x. x)"
  by (simp add: keeps_sign_def)

lemma jsadd_is_Num: "is_Num (jsadd rnd a b) \<Longrightarrow> is_Num a \<and> is_Num b"
  by (cases a; cases b) simp_all

lemma foldl_jsadd_not_Num:
  "\<not> is_Num acc \<Longrightarrow> \<not> is_Num (foldl (\<lambda>acc i. jsadd rnd acc (f i)) acc is)"
proof (induction "is" arbitrary: acc)
  case Nil
  then show ?case by simp
next
  case (Cons i "is")
  from Cons.prems have "\<not> is_Num (jsadd rnd acc (f i))"
    using jsadd_is_Num by blast
  then show ?case using Cons.IH by simp
qed

lemma foldl_jsadd_zero:
  assumes ks: "keeps_sign rnd"
  shows "\<forall>i \<in> set is. \<forall>b. f i = Num b \<longrightarrow> 0 \<le> b \<Longrightarrow> 0 \<le> a \<Longrightarrow>
         foldl (\<lambda>acc i. jsadd rnd acc (f i)) (Num a) is = Num 0 \<Longrightarrow>
         a = 0 \<and> (\<forall>i \<in> set is. f i = Num 0)"
proof (induction "is" arbitrary: a)
  case Nil
  then show ?case by simp
next
  case (Cons i "is")
  have "is_Num (jsadd rnd (Num a) (f i))"
  proof (rule ccontr)
    assume "\<not> is_Num (jsadd rnd (Num a) (f i))"
    from foldl_jsadd_not_Num [OF this, of rnd f "is"] Cons.prems(3) show False by simp
  qed
  then obtain b where b: "f i = Num b"
    using jsadd_is_Num [of rnd "Num a" "f i"] by (cases "f i") simp_all
  then have b0: "0 \<le> b" using Cons.prems(1) by simp
  have r0: "0 \<le> rnd (a + b)"
    using ks b0 Cons.prems(2) by (simp add: keeps_sign_def)
  have nn: "\<forall>i \<in> set is. \<forall>b. f i = Num b \<longrightarrow> 0 \<le> b"
    using Cons.prems(1) by simp
  have "foldl (\<lambda>acc i. jsadd rnd acc (f i)) (Num (rnd (a + b))) is = Num 0"
    using Cons.prems(3) b by simp
  from Cons.IH [OF nn r0 this]
  have "rnd (a + b) = 0" and rest: "\<forall>i \<in> set is. f i = Num 0"
    by simp_all
  then have "a + b = 0" using ks unfolding keeps_sign_def by blast
  with b0 Cons.prems(2) have "a = 0" "b = 0" by simp_all
  with b rest show ?case by simp
qed

lemma jspow2_nonneg:
  assumes "keeps_sign rnd" and "jspow2 rnd d = Num b"
  shows "0 \<le> b"
  using assms by (cases d) (auto simp: jspow2_def keeps_sign_def split: if_splits)

lemma jspow2_zero:
  assumes "keeps_sign rnd" and "jspow2 rnd d = Num 0"
  shows "d = Num 0"
  using assms by (cases d) (auto simp: jspow2_def keeps_sign_def split: if_splits)

lemma jssub_zero:
  assumes "keeps_sign rnd" and "jssub rnd a b = Num 0"
  shows "\<exists>r. a = Num r \<and> b = Num r"
  using assms by (cases a; cases b) (auto simp: jssub_def keeps_sign_def)

lemma stddev_zero_values:
  assumes ks: "keeps_sign rnd"
    and z: "calculateStdDev rnd buffer mean = Num 0"
  shows "buffer \<noteq> [] \<and> (\<forall>i<length buffer. ta_get buffer i = mean)"
proof -
  let ?f = "\<lambda>i. jspow2 rnd (jssub rnd (ta_get buffer i) mean)"
  let ?sumSq = "foldl (\<lambda>sumSq i. jsadd rnd sumSq (?f i)) (Num 0) [0..<length buffer]"
  from z have q: "jssqrt rnd (jsdiv rnd ?sumSq (Num (real (length buffer)))) = Num 0"
    by (simp add: calculateStdDev_def Let_def)
  then obtain a where a: "jsdiv rnd ?sumSq (Num (real (length buffer))) = Num a" "0 \<le> a"
    "rnd (sqrt a) = 0"
    by (cases "jsdiv rnd ?sumSq (Num (real (length buffer)))") (auto split: if_splits)
  then have "sqrt a = 0" using ks unfolding keeps_sign_def by blast
  then have a0: "a = 0" by simp
  from a(1) obtain s where s: "?sumSq = Num s"
    by (cases ?sumSq) (auto split: if_splits)
  with a(1) a0 have len: "length buffer \<noteq> 0" and "rnd (s / real (length buffer)) = 0"
    by (auto split: if_splits)
  then have "s / real (length buffer) = 0" using ks unfolding keeps_sign_def by blast
  with len have "s = 0" by simp
  with s have s0: "?sumSq = Num 0" by (simp only:)
  have nn: "\<forall>i \<in> set [0..<length buffer]. \<forall>b. ?f i = Num b \<longrightarrow> 0 \<le> b"
  proof (intro ballI allI impI)
    fix i b assume "?f i = Num b"
    then show "0 \<le> b" by (rule jspow2_nonneg [OF ks])
  qed
  have zs: "(0::real) = 0 \<and> (\<forall>i \<in> set [0..<length buffer]. ?f i = Num 0)"
    by (rule foldl_jsadd_zero [OF ks nn order_refl s0])
  have "ta_get buffer i = mean" if "i < length buffer" for i
  proof -
    from zs that have "?f i = Num 0" by simp
    then have "jssub rnd (ta_get buffer i) mean = Num 0" by (rule jspow2_zero [OF ks])
    from jssub_zero [OF ks this] show ?thesis by auto
  qed
  with len show ?thesis by simp
qed

lemma byte_num_inject [simp]: "byte_num a = byte_num b \<longleftrightarrow> a = b"
  by (simp add: byte_num_def word_eq_iff_unsigned [where ?'a = real, symmetric])

lemma uniform_needle_constant:
  assumes ks: "keeps_sign rnd"
    and z: "jseq (calculateStdDev rnd nb (calculateMean rnd nb)) (Num 0)"
  shows "\<exists>V. nb \<noteq> [] \<and> set nb = {V} \<and> calculateMean rnd nb = byte_num V"
proof -
  from z have "calculateStdDev rnd nb (calculateMean rnd nb) = Num 0"
    by (simp add: jseq_def)
  from stddev_zero_values [OF ks this]
  have ne: "nb \<noteq> []" and all: "\<And>i. i < length nb \<Longrightarrow> ta_get nb i = calculateMean rnd nb"
    by simp_all
  have at: "byte_num (nb ! i) = calculateMean rnd nb" if "i < length nb" for i
    using all [OF that] that by (simp add: ta_get_def)
  from ne have l0: "0 < length nb" by simp
  have m: "calculateMean rnd nb = byte_num (nb ! 0)"
    using at [OF l0] by simp
  have eq: "nb ! i = nb ! 0" if "i < length nb" for i
  proof -
    from at [OF that] m have "byte_num (nb ! i) = byte_num (nb ! 0)" by simp
    then show ?thesis by (simp only: byte_num_inject)
  qed
  have "set nb = {nb ! 0}"
  proof
    show "set nb \<subseteq> {nb ! 0}"
      using eq by (auto simp: in_set_conv_nth)
    show "{nb ! 0} \<subseteq> set nb"
      using l0 by simp
  qed
  with ne m show ?thesis by blast
qed

lemma jseq_ta_get_byte:
  "jseq (ta_get hb k) (byte_num V) \<longleftrightarrow> k < length hb \<and> hb ! k = V"
  by (simp add: jseq_def ta_get_def) (simp add: byte_num_def)

lemma window_equals_byte:
  "window_equals hb hw x y nw nh (byte_num V) \<longleftrightarrow>
     (\<forall>j<nh. \<forall>i<nw. (y + j) * hw + (x + i) < length hb \<and> hb ! ((y + j) * hw + (x + i)) = V)"
  by (simp add: window_equals_def jseq_ta_get_byte)

lemma sorted_wrt_irrefl_distinct:
  assumes "\<And>a. \<not> R a a"
  shows "sorted_wrt R xs \<Longrightarrow> distinct xs"
  using assms by (induction xs) auto

lemma distinct_scan:
  fixes f :: "nat \<Rightarrow> nat \<Rightarrow> Region MatchResult list"
  assumes "\<And>x y m. m \<in> set (f x y) \<Longrightarrow> left (location m) = x \<and> top (location m) = y"
    and "\<And>x y. length (f x y) \<le> 1"
  shows "distinct (scan hw hh nw nh f)"
proof -
  have "sorted_wrt raster_before (map location (scan hw hh nw nh f))"
    using assms by (rule scan_raster_sorted)
  then have "distinct (map location (scan hw hh nw nh f))"
    by (rule sorted_wrt_irrefl_distinct [rotated]) (simp add: raster_before_def)
  then show ?thesis by (simp add: distinct_map)
qed

lemma mean_200: "calculateMean (\<lambda>x. x) [200, 200, 200, 200] = Num 200"
  by (simp add: stats_defs upt_rec)

lemma std_200: "calculateStdDev (\<lambda>x. x) [200, 200, 200, 200] (Num 200) = Num 0"
  by (simp add: stats_defs upt_rec)

lemma ex_spec_scenario:
  "findMatches raw_copy (\<lambda>x. x)
     (request (gray 4 4 [10, 10, 10, 10,  10, 200, 200, 10,  10, 200, 200, 10,  10, 10, 10, 10])
              (gray 2 2 [200, 200, 200, 200]) None)
   = Inr [\<lparr>MatchResult.confidence = Num 1,
           location = \<lparr>left = 1, top = 1, width = 2, height = 2\<rparr>, error = None\<rparr>]"
proof -
  have u: "jseq (calculateStdDev (\<lambda>x. x) [200, 200, 200, 200]
                  (calculateMean (\<lambda>x. x) [200, 200, 200, 200])) (Num 0)"
    by (simp add: mean_200 std_200 jseq_def)
  show ?thesis
    by (subst findMatches_templateMatch
          [where hb = "[10, 10, 10, 10,  10, 200, 200, 10,  10, 200, 200, 10,  10, 10, 10, 10]"
             and nb = "[200, 200, 200, 200]"])
       (simp_all add: example_defs templateMatch_uniform [OF u] mean_200 scan_defs ta_get_def
          byte_num_def jseq_def upt_rec all_less_2)
qed

text \<open>
  Claim C3.  When the standard deviation of the needle buffer is 0, the needle is a
  non-empty buffer of one value \<open>V\<close>, and \<open>findMatches\<close> returns exactly one result per
  candidate offset \<open>(x, y)\<close>, \<open>0 \<le> x \<le> haystackWidth - needleWidth\<close> and
  \<open>0 \<le> y \<le> haystackHeight - needleHeight\<close>, at which every pixel of the haystack
  window is \<open>V\<close>; each has confidence 1, and nothing else is returned.  The rounding
  function is only required to keep signs (to round no non-zero value to 0 and no
  non-negative value below 0).
\<close>

theorem uniform_needle_exact_matches:
  assumes "keeps_sign rnd"
    and "\<not> (Image.width (haystack rq) < Image.width (needle rq)
              \<or> Image.height (haystack rq) < Image.height (needle rq))"
    and "imageToRawBuffer sharp (haystack rq) = Inr hb"
    and "imageToRawBuffer sharp (needle rq) = Inr nb"
    and "jseq (calculateStdDev rnd nb (calculateMean rnd nb)) (Num 0)"
  shows "\<exists>V ms. nb \<noteq> [] \<and> set nb = {V}
           \<and> findMatches sharp rnd rq = Inr ms
           \<and> (\<forall>m. m \<in> set ms \<longleftrightarrow>
                 (\<exists>x y. int x \<le> int (Image.width (haystack rq)) - int (Image.width (needle rq))
                      \<and> int y \<le> int (Image.height (haystack rq)) - int (Image.height (needle rq))
                      \<and> (\<forall>j<Image.height (needle rq). \<forall>i<Image.width (needle rq).
                            (y + j) * Image.width (haystack rq) + (x + i) < length hb
                            \<and> hb ! ((y + j) * Image.width (haystack rq) + (x + i)) = V)
                      \<and> m = \<lparr>MatchResult.confidence = Num 1,
                              location = \<lparr>left = x, top = y, width = Image.width (needle rq),
                                            height = Image.height (needle rq)\<rparr>,
                              error = None\<rparr>))
           \<and> distinct ms"
proof -
  let ?hw = "Image.width (haystack rq)" and ?hh = "Image.height (haystack rq)"
  let ?nw = "Image.width (needle rq)" and ?nh = "Image.height (needle rq)"
  from uniform_needle_constant [OF assms(1,5)] obtain V where
    ne: "nb \<noteq> []" and V: "set nb = {V}" and m: "calculateMean rnd nb = byte_num V"
    by blast
  let ?f = "\<lambda>x y. if window_equals hb ?hw x y ?nw ?nh (byte_num V)
                  then [new_MatchResult (Num 1) (new_Region x y ?nw ?nh) None] else []"
  have eq: "findMatches sharp rnd rq = Inr (scan ?hw ?hh ?nw ?nh ?f)"
    using findMatches_templateMatch [OF assms(2-4), of rnd] templateMatch_uniform [OF assms(5)] m
    by simp
  have mem: "m \<in> set (scan ?hw ?hh ?nw ?nh ?f) \<longleftrightarrow>
                 (\<exists>x y. int x \<le> int ?hw - int ?nw \<and> int y \<le> int ?hh - int ?nh
                      \<and> (\<forall>j<?nh. \<forall>i<?nw.
                            (y + j) * ?hw + (x + i) < length hb
                            \<and> hb ! ((y + j) * ?hw + (x + i)) = V)
                      \<and> m = \<lparr>MatchResult.confidence = Num 1,
                              location = \<lparr>left = x, top = y, width = ?nw, height = ?nh\<rparr>,
                              error = None\<rparr>)" for m
    unfolding set_scan
    by (simp add: window_equals_byte [symmetric] new_MatchResult_def new_Region_def) blast
  have "distinct (scan ?hw ?hh ?nw ?nh ?f)"
    by (rule distinct_scan) (simp_all add: new_MatchResult_def new_Region_def)
  with ne V eq mem show ?thesis by blast
qed

theorem uniform_needle_exact_matches_witness:
  "keeps_sign (\<lambda>x. x)
   \<and> \<not> (Image.width (gray 4 4 [10, 10, 10, 10,  10, 200, 200, 10,  10, 200, 200, 10,  10, 10, 10, 10])
          < Image.width (gray 2 2 [200, 200, 200, 200])
        \<or> Image.height (gray 4 4 [10, 10, 10, 10,  10, 200, 200, 10,  10, 200, 200, 10,  10, 10, 10, 10])
          < Image.height (gray 2 2 [200, 200, 200, 200]))
   \<and> jseq (calculateStdDev (\<lambda>x. x) [200, 200, 200, 200]
             (calculateMean (\<lambda>x. x) [200, 200, 200, 200])) (Num 0)
   \<and> (\<exists>ms. findMatches raw_copy (\<lambda>x. x)
               (request (gray 4 4 [10, 10, 10, 10,  10, 200, 200, 10,  10, 200, 200, 10,  10, 10, 10, 10])
                        (gray 2 2 [200, 200, 200, 200]) None) = Inr ms
          \<and> ms = [\<lparr>MatchResult.confidence = Num 1,
                     location = \<lparr>left = 1, top = 1, width = 2, height = 2\<rparr>, error = None\<rparr>]
          \<and> (\<forall>m. m \<in> set ms \<longleftrightarrow>
                 (\<exists>x y. int x \<le> int 4 - int 2 \<and> int y \<le> int 4 - int 2
                      \<and> (\<forall>j<2. \<forall>i<2.
                            (y + j) * 4 + (x + i)
                              < length [10, 10, 10, 10,  10, 200, 200, 10,  10, 200, 200, 10,  10, 10, 10, 10 :: 8 word]
                            \<and> [10, 10, 10, 10,  10, 200, 200, 10,  10, 200, 200, 10,  10, 10, 10, 10]
                                  ! ((y + j) * 4 + (x + i)) = (200 :: 8 word))
                      \<and> m = \<lparr>MatchResult.confidence = Num 1,
                              location = \<lparr>left = x, top = y, width = 2, height = 2\<rparr>,
                              error = None\<rparr>)))"
proof -
  let ?hay = "[10, 10, 10, 10,  10, 200, 200, 10,  10, 200, 200, 10,  10, 10, 10, 10] :: Uint8Array"
  let ?rq = "request (gray 4 4 ?hay) (gray 2 2 [200, 200, 200, 200]) None"
  have ks: "keeps_sign (\<lambda>x. x)" by (rule keeps_sign_id)
  have v: "\<not> (Image.width (haystack ?rq) < Image.width (needle ?rq)
              \<or> Image.height (haystack ?rq) < Image.height (needle ?rq))"
    by (simp add: example_defs)
  have hb: "imageToRawBuffer raw_copy (haystack ?rq) = Inr ?hay"
    by (simp add: example_defs)
  have nb: "imageToRawBuffer raw_copy (needle ?rq) = Inr [200, 200, 200, 200]"
    by (simp add: example_defs)
  have u: "jseq (calculateStdDev (\<lambda>x. x) [200, 200, 200, 200]
                  (calculateMean (\<lambda>x. x) [200, 200, 200, 200])) (Num 0)"
    by (simp add: mean_200 std_200 jseq_def)
  from uniform_needle_exact_matches [OF ks v hb nb u] obtain V ms where
    V: "set [200, 200, 200, 200 :: 8 word] = {V}"
    and ms: "findMatches raw_copy (\<lambda>x. x) ?rq = Inr ms"
    and iff: "\<forall>m. m \<in> set ms \<longleftrightarrow>
                 (\<exists>x y. int x \<le> int (Image.width (haystack ?rq)) - int (Image.width (needle ?rq))
                      \<and> int y \<le> int (Image.height (haystack ?rq)) - int (Image.height (needle ?rq))
                      \<and> (\<forall>j<Image.height (needle ?rq). \<forall>i<Image.width (needle ?rq).
                            (y + j) * Image.width (haystack ?rq) + (x + i) < length ?hay
                            \<and> ?hay ! ((y + j) * Image.width (haystack ?rq) + (x + i)) = V)
                      \<and> m = \<lparr>MatchResult.confidence = Num 1,
                              location = \<lparr>left = x, top = y, width = Image.width (needle ?rq),
                                            height = Image.height (needle ?rq)\<rparr>,
                              error = None\<rparr>)"
    by blast
  from V have V200: "V = 200" by auto
  from ms ex_spec_scenario have "ms = [\<lparr>MatchResult.confidence = Num 1,
                     location = \<lparr>left = 1, top = 1, width = 2, height = 2\<rparr>, error = None\<rparr>]"
    by simp
  moreover note iff [unfolded V200, simplified request_def gray_def, simplified]
  ultimately show ?thesis
    using ks v u ms by (simp add: request_def gray_def)
qed

lemma we_79: "window_equals [7, 9] 2 1 0 1 1 (Num 9)"
  by (simp add: window_equals_def ta_get_def byte_num_def jseq_def)

theorem uniform_needle_ignores_threshold_witness:
  "\<not> (Image.width (gray 2 1 [7, 9]) < Image.width (gray 1 1 [9])
       \<or> Image.height (gray 2 1 [7, 9]) < Image.height (gray 1 1 [9]))
   \<and> imageToRawBuffer raw_copy (gray 2 1 [7, 9]) = Inr [7, 9]
   \<and> imageToRawBuffer raw_copy (gray 1 1 [9]) = Inr [9]
   \<and> jseq (calculateStdDev (\<lambda>x. x) [9] (calculateMean (\<lambda>x. x) [9])) (Num 0)
   \<and> (\<exists>ms. findMatches raw_copy (\<lambda>x. x)
               (request (gray 2 1 [7, 9]) (gray 1 1 [9]) (Some (Num 2))) = Inr ms
          \<and> findMatches raw_copy (\<lambda>x. x)
               (request (gray 2 1 [7, 9]) (gray 1 1 [9]) None) = Inr ms
          \<and> \<lparr>MatchResult.confidence = Num 1,
              location = \<lparr>left = 1, top = 0, width = 1, height = 1\<rparr>, error = None\<rparr> \<in> set ms
          \<and> \<not> jsge (Num 1) (Num 2))"
proof -
  let ?rq = "request (gray 2 1 [7, 9]) (gray 1 1 [9]) None"
  have up: "?rq\<lparr>MatchRequest.confidence := c\<rparr> = request (gray 2 1 [7, 9]) (gray 1 1 [9]) c" for c
    by (simp add: request_def)
  have v: "\<not> (Image.width (haystack ?rq) < Image.width (needle ?rq)
              \<or> Image.height (haystack ?rq) < Image.height (needle ?rq))"
    by (simp add: example_defs)
  have hb: "imageToRawBuffer raw_copy (haystack ?rq) = Inr [7, 9]"
    by (simp add: example_defs)
  have nb: "imageToRawBuffer raw_copy (needle ?rq) = Inr [9]"
    by (simp add: example_defs)
  have u: "jseq (calculateStdDev (\<lambda>x. x) [9] (calculateMean (\<lambda>x. x) [9])) (Num 0)"
    by (simp add: mean_ex std_ex jseq_def)
  have we: "int 1 \<le> int (Image.width (haystack ?rq)) - int (Image.width (needle ?rq))
        \<and> int 0 \<le> int (Image.height (haystack ?rq)) - int (Image.height (needle ?rq))
        \<and> window_equals [7, 9] (Image.width (haystack ?rq)) 1 0
              (Image.width (needle ?rq)) (Image.height (needle ?rq)) (calculateMean (\<lambda>x. x) [9])"
    using we_79 by (simp add: mean_ex request_def gray_def)
  from uniform_needle_ignores_threshold [OF v hb nb u] obtain ms where
    all: "\<And>c. findMatches raw_copy (\<lambda>x. x) (?rq\<lparr>MatchRequest.confidence := c\<rparr>) = Inr ms"
    and w: "\<forall>x y. int x \<le> int (Image.width (haystack ?rq)) - int (Image.width (needle ?rq))
                   \<and> int y \<le> int (Image.height (haystack ?rq)) - int (Image.height (needle ?rq))
                   \<and> window_equals [7, 9] (Image.width (haystack ?rq)) x y
                         (Image.width (needle ?rq)) (Image.height (needle ?rq)) (calculateMean (\<lambda>x. x) [9])
                 \<longrightarrow> \<lparr>MatchResult.confidence = Num 1,
                       location = \<lparr>left = x, top = y, width = Image.width (needle ?rq),
                                     height = Image.height (needle ?rq)\<rparr>,
                       error = None\<rparr> \<in> set ms"
    by blast
  from w we have "\<lparr>MatchResult.confidence = Num 1,
                       location = \<lparr>left = 1, top = 0, width = Image.width (needle ?rq),
                                     height = Image.height (needle ?rq)\<rparr>,
                       error = None\<rparr> \<in> set ms"
    by blast
  then have "\<lparr>MatchResult.confidence = Num 1,
              location = \<lparr>left = 1, top = 0, width = 1, height = 1\<rparr>, error = None\<rparr> \<in> set ms"
    by (simp add: request_def gray_def)
  moreover from all [of "Some (Num 2)"] all [of None]
  have "findMatches raw_copy (\<lambda>x. x) (request (gray 2 1 [7, 9]) (gray 1 1 [9]) (Some (Num 2))) = Inr ms"
    "findMatches raw_copy (\<lambda>x. x) (request (gray 2 1 [7, 9]) (gray 1 1 [9]) None) = Inr ms"
    unfolding up by simp_all
  ultimately show ?thesis
    using v hb nb u by (simp add: request_def gray_def)
qed

lemma foldl_jsadd_Num:
  assumes "\<And>i. i \<in> set is \<Longrightarrow> is_Num (f i)"
  shows "is_Num (foldl (\<lambda>acc i. jsadd rnd acc (f i)) (Num a) is)"
  using assms
proof (induction "is" arbitrary: a)
  case Nil
  then show ?case by simp
next
  case (Cons i "is")
  from Cons.prems [of i] obtain b where "f i = Num b" by (cases "f i") simp_all
  with Cons show ?case by simp
qed


lemma calculateMean_Num:
  assumes "buffer \<noteq> []"
  shows "is_Num (calculateMean rnd buffer)"
proof -
  have "is_Num (foldl (\<lambda>sum i. jsadd rnd sum (ta_get buffer i)) (Num 0) [0..<length buffer])"
    by (rule foldl_jsadd_Num) (simp add: ta_get_def byte_num_def)
  then obtain s where
    "foldl (\<lambda>sum i. jsadd rnd sum (ta_get buffer i)) (Num 0) [0..<length buffer] = Num s"
    by (cases "foldl (\<lambda>sum i. jsadd rnd sum (ta_get buffer i)) (Num 0) [0..<length buffer]")
       simp_all
  with assms show ?thesis by (simp add: calculateMean_def)
qed


lemma pixel_converter_raw_copy: "pixel_converter raw_copy"
  by (simp add: pixel_converter_def raw_copy_def split: if_splits)

lemma imageToRawBuffer_Inr:
  "imageToRawBuffer sharp img = Inr buffer \<longleftrightarrow> sharp img = Inr buffer"
  by (simp add: imageToRawBuffer_def split: sum.splits)

text \<open>
  A needle of width and height 0 passes the dimension check, and it is the conversion
  that rejects it: no statistics are computed.
\<close>

lemma ex_empty_needle:
  "findMatches raw_copy rnd (request (gray 2 2 [1, 2, 3, 4]) (gray 0 0 []) None)
     = Inl (Error ''Failed to convert image to raw buffer: Input Buffer is empty'')
   \<and> statistics_inputs raw_copy rnd (request (gray 2 2 [1, 2, 3, 4]) (gray 0 0 []) None) = []"
  by (simp add: findMatches_def statistics_inputs_def example_defs)

text \<open>
  The list \<open>statistics_inputs\<close> against the result of the call: in the general branch
  its head is the needle buffer, and the confidences returned are those that
  \<open>calculateNCC\<close> computes from the remaining buffers, in the same order, that reach the
  threshold.
\<close>

lemma map_scan: "map h (scan hw hh nw nh f) = scan hw hh nw nh (\<lambda>x y. map h (f x y))"
  by (simp add: scan_def map_concat comp_def)

lemma filter_scan: "filter P (scan hw hh nw nh f) = scan hw hh nw nh (\<lambda>x y. filter P (f x y))"
  by (simp add: scan_def filter_concat comp_def)

lemma statistics_inputs_confidences:
  assumes v: "\<not> (Image.width (haystack rq) < Image.width (needle rq)
           \<or> Image.height (haystack rq) < Image.height (needle rq))"
    and hb: "imageToRawBuffer sharp (haystack rq) = Inr hb"
    and nb: "imageToRawBuffer sharp (needle rq) = Inr nb"
    and g: "\<not> jseq (calculateStdDev rnd nb (calculateMean rnd nb)) (Num 0)"
  shows "\<exists>ms. findMatches sharp rnd rq = Inr ms
           \<and> hd (statistics_inputs sharp rnd rq) = nb
           \<and> map MatchResult.confidence ms
               = filter (\<lambda>c. jsge c (threshold rnd rq))
                   (map (\<lambda>regionBuffer. calculateNCC rnd regionBuffer nb (calculateMean rnd nb)
                           (calculateStdDev rnd nb (calculateMean rnd nb)))
                      (tl (statistics_inputs sharp rnd rq)))"
proof -
  let ?hw = "Image.width (haystack rq)" and ?hh = "Image.height (haystack rq)"
  let ?nw = "Image.width (needle rq)" and ?nh = "Image.height (needle rq)"
  have s: "statistics_inputs sharp rnd rq
             = nb # scan ?hw ?hh ?nw ?nh (\<lambda>x y. [window hb ?hw x y ?nw ?nh])"
    using v hb nb g by (simp add: statistics_inputs_def Let_def)
  have "findMatches sharp rnd rq
          = Inr (scan ?hw ?hh ?nw ?nh
               (\<lambda>x y. if jsge (window_confidence rnd hb ?hw nb ?nw ?nh x y) (threshold rnd rq)
                      then [new_MatchResult (window_confidence rnd hb ?hw nb ?nw ?nh x y)
                              (new_Region x y ?nw ?nh) None] else []))"
    by (simp add: findMatches_templateMatch [OF v hb nb] templateMatch_general [OF g])
  moreover have "map MatchResult.confidence (scan ?hw ?hh ?nw ?nh
               (\<lambda>x y. if jsge (window_confidence rnd hb ?hw nb ?nw ?nh x y) (threshold rnd rq)
                      then [new_MatchResult (window_confidence rnd hb ?hw nb ?nw ?nh x y)
                              (new_Region x y ?nw ?nh) None] else []))
      = filter (\<lambda>c. jsge c (threshold rnd rq))
                   (map (\<lambda>regionBuffer. calculateNCC rnd regionBuffer nb (calculateMean rnd nb)
                           (calculateStdDev rnd nb (calculateMean rnd nb)))
                      (scan ?hw ?hh ?nw ?nh (\<lambda>x y. [window hb ?hw x y ?nw ?nh])))"
    unfolding map_scan filter_scan
    by (rule arg_cong [where f = "scan ?hw ?hh ?nw ?nh"])
       (auto simp: fun_eq_iff window_confidence_def new_MatchResult_def)
  ultimately show ?thesis by (simp add: s)
qed



section \<open>Rounding to the nearest double\<close>

lemma round_ties_even_near:
  assumes "of_int k - 1 / 2 < r" and "r < of_int k + 1 / 2"
  shows "round_ties_even r = k"
proof (cases "of_int k \<le> r")
  case True
  with assms have "\<lfloor>r\<rfloor> = k" by linarith
  with assms show ?thesis by (simp add: round_ties_even_def Let_def)
next
  case False
  with assms have f: "\<lfloor>r\<rfloor> = k - 1" by linarith
  then have "\<not> r - of_int \<lfloor>r\<rfloor> < 1 / 2" "1 / 2 < r - of_int \<lfloor>r\<rfloor>"
    using assms by simp_all
  with f show ?thesis by (simp add: round_ties_even_def Let_def)
qed

lemma round_ties_even_of_int [simp]: "round_ties_even (of_int k) = k"
  by (rule round_ties_even_near) simp_all

lemma binary64_near:
  assumes "0 < u" and "u = 2 powr (of_int e - 52)"
    and "2 powr (of_int e) \<le> \<bar>x\<bar>" and "\<bar>x\<bar> < 2 powr (of_int e + 1)"
    and "of_int k - 1 / 2 < x / u" and "x / u < of_int k + 1 / 2"
  shows "binary64 x = of_int k * u"
proof -
  from assms(3) have x0: "x \<noteq> 0" by auto
  then have "\<lfloor>log 2 \<bar>x\<bar>\<rfloor> = e"
    using assms(3,4) by (simp add: floor_log_eq_powr_iff)
  with x0 assms(2) round_ties_even_near [OF assms(5,6)] show ?thesis
    by (simp add: binary64_def Let_def)
qed

lemma binary64_sqrt2: "binary64 (sqrt 2) = 6369051672525773 / 4503599627370496"
proof -
  have lo: "(6369051672525773 - 1 / 2) / 4503599627370496 < sqrt 2"
    by (rule real_less_rsqrt) (simp add: power2_eq_square)
  have hi: "sqrt 2 < (6369051672525773 + 1 / 2) / 4503599627370496"
    by (rule real_less_lsqrt) (simp_all add: power2_eq_square)
  have "1 \<le> sqrt 2" by simp
  moreover have "sqrt 2 < 2" by (rule real_less_lsqrt) simp_all
  ultimately have "binary64 (sqrt 2) = of_int 6369051672525773 * (1 / 4503599627370496)"
    using lo hi
    by (intro binary64_near [where e = 0]) (simp_all add: powr_neg_numeral field_simps)
  then show ?thesis by simp
qed

lemma binary64_exact:
  assumes "x \<noteq> 0" and "x / 2 powr (of_int \<lfloor>log 2 \<bar>x\<bar>\<rfloor> - 52) = of_int m"
  shows "binary64 x = x"
proof -
  have "of_int m * 2 powr (of_int \<lfloor>log 2 \<bar>x\<bar>\<rfloor> - 52) = x"
    using assms(2) [symmetric] by simp
  with assms show ?thesis by (simp add: binary64_def Let_def)
qed

lemma binary64_of_int:
  assumes "\<bar>n\<bar> < 2 ^ 53"
  shows "binary64 (of_int n) = of_int n"
proof (cases "n = 0")
  case True
  then show ?thesis by (simp add: binary64_def)
next
  case False
  define e where "e = \<lfloor>log 2 \<bar>real_of_int n\<bar>\<rfloor>"
  have pos: "0 < \<bar>real_of_int n\<bar>" using False by simp
  have "1 \<le> \<bar>real_of_int n\<bar>" using False by (simp flip: of_int_abs)
  then have "0 \<le> log 2 \<bar>real_of_int n\<bar>" by simp
  then have e0: "0 \<le> e" by (simp add: e_def)
  have "\<bar>real_of_int n\<bar> < 2 ^ 53" using assms by (simp flip: of_int_abs)
  then have "\<bar>real_of_int n\<bar> < 2 powr 53" by simp
  then have "log 2 \<bar>real_of_int n\<bar> < 53"
    using pos by (simp add: log_less_iff)
  then have e52: "e \<le> 52" unfolding e_def by linarith
  have "(2::real) powr real_of_int (e - 52)
          = (if 0 \<le> e - 52 then 2 ^ nat (e - 52) else inverse (2 ^ nat (- (e - 52))))"
    by (rule powr_real_of_int) simp
  then have ulp: "(2::real) powr (of_int e - 52) = inverse (2 ^ nat (52 - e))"
    using e52 by (cases "e = 52") simp_all
  have "real_of_int n / 2 powr (of_int e - 52) = of_int (n * 2 ^ nat (52 - e))"
    by (simp add: ulp divide_inverse)
  then have "real_of_int n / 2 powr (of_int \<lfloor>log 2 \<bar>real_of_int n\<bar>\<rfloor> - 52)
               = of_int (n * 2 ^ nat (52 - e))"
    by (simp only: e_def)
  moreover have "real_of_int n \<noteq> 0" using False by simp
  ultimately show ?thesis by (rule binary64_exact [rotated])
qed

lemma binary64_numeral:
  "numeral w < (9007199254740992 :: int) \<Longrightarrow> binary64 (numeral w) = numeral w"
  using binary64_of_int [of "numeral w"] by simp

lemma binary64_neg_numeral:
  "numeral w < (9007199254740992 :: int) \<Longrightarrow> binary64 (- numeral w) = - numeral w"
  using binary64_of_int [of "- numeral w"] by simp

lemma binary64_0 [simp]: "binary64 0 = 0"
  by (simp add: binary64_def)

lemma binary64_1 [simp]: "binary64 1 = 1"
  using binary64_of_int [of 1] by simp

lemma binary64_square_sqrt2:
  "binary64 (6369051672525773 / 4503599627370496 * (6369051672525773 / 4503599627370496))
     = 4503599627370497 / 2251799813685248"
proof -
  have "binary64 (6369051672525773 / 4503599627370496 * (6369051672525773 / 4503599627370496))
          = of_int 4503599627370497 * (1 / 2251799813685248)"
    by (intro binary64_near [where e = 1]) (simp_all add: powr_neg_numeral)
  then show ?thesis by simp
qed

lemma binary64_quotient:
  "binary64 (2 / (4503599627370497 / 2251799813685248)) = 4503599627370495 / 4503599627370496"
proof -
  have "binary64 (2 / (4503599627370497 / 2251799813685248))
          = of_int 9007199254740990 * (1 / 9007199254740992)"
    by (intro binary64_near [where e = "- 1"]) (simp_all add: powr_neg_numeral)
  then show ?thesis by simp
qed

lemma binary64_plus_one:
  "binary64 (4503599627370495 / 4503599627370496 + 1) = 9007199254740991 / 4503599627370496"
proof -
  have "binary64 (4503599627370495 / 4503599627370496 + 1)
          = of_int 9007199254740991 * (1 / 4503599627370496)"
    by (intro binary64_near [where e = 0]) (simp_all add: powr_neg_numeral)
  then show ?thesis by simp
qed

lemma binary64_halve:
  "binary64 (9007199254740991 / 4503599627370496 / 2) = 9007199254740991 / 9007199254740992"
proof -
  have "binary64 (9007199254740991 / 4503599627370496 / 2)
          = of_int 9007199254740991 * (1 / 9007199254740992)"
    by (intro binary64_near [where e = "- 1"]) (simp_all add: powr_neg_numeral)
  then show ?thesis by simp
qed

lemma round_ties_even_nonneg: "0 \<le> r \<Longrightarrow> 0 \<le> round_ties_even r"
proof -
  assume "0 \<le> r"
  then have "0 \<le> \<lfloor>r\<rfloor>" by simp
  then show ?thesis by (simp add: round_ties_even_def Let_def)
qed

lemma round_ties_even_pos: "1 \<le> r \<Longrightarrow> 0 < round_ties_even r"
proof -
  assume "1 \<le> r"
  then have "1 \<le> \<lfloor>r\<rfloor>" by simp
  then show ?thesis by (simp add: round_ties_even_def Let_def)
qed

lemma round_ties_even_neg: "r \<le> - 1 \<Longrightarrow> round_ties_even r < 0"
proof -
  assume r: "r \<le> - 1"
  then have f: "\<lfloor>r\<rfloor> \<le> - 1" by linarith
  show ?thesis
  proof (cases "\<lfloor>r\<rfloor> = - 1")
    case True
    then have "- 1 \<le> r" by linarith
    with r have "r = - 1" by simp
    then show ?thesis by (simp add: round_ties_even_def Let_def)
  next
    case False
    with f have "\<lfloor>r\<rfloor> + 1 < 0" by simp
    then show ?thesis by (simp add: round_ties_even_def Let_def)
  qed
qed

lemma keeps_sign_binary64: "keeps_sign binary64"
  unfolding keeps_sign_def
proof (intro conjI allI impI)
  fix x :: real
  assume z: "binary64 x = 0"
  show "x = 0"
  proof (rule ccontr)
    assume x: "x \<noteq> 0"
    define e where "e = \<lfloor>log 2 \<bar>x\<bar>\<rfloor>"
    define u :: real where "u = 2 powr (of_int e - 52)"
    have u0: "0 < u" by (simp add: u_def)
    have "2 powr (of_int e) \<le> \<bar>x\<bar>"
      using floor_log_eq_powr_iff [of "\<bar>x\<bar>" 2 e] x by (simp add: e_def)
    then have "2 powr (of_int e) / u \<le> \<bar>x\<bar> / u"
      using u0 by (simp add: divide_right_mono)
    moreover have "2 powr (of_int e) / u = 2 powr 52"
      by (simp add: u_def powr_diff [symmetric])
    ultimately have "2 powr 52 \<le> \<bar>x\<bar> / u" by simp
    moreover have "(1::real) \<le> 2 powr 52" by simp
    ultimately have "1 \<le> \<bar>x\<bar> / u" by (rule order_trans [rotated])
    then have big: "1 \<le> \<bar>x / u\<bar>"
      using u0 by (simp add: abs_divide del: powr_numeral)
    have "round_ties_even (x / u) \<noteq> 0"
    proof (cases "0 \<le> x / u")
      case True
      with big have "1 \<le> x / u" by simp
      then show ?thesis using round_ties_even_pos by fastforce
    next
      case False
      with big have "x / u \<le> - 1" by simp
      then show ?thesis using round_ties_even_neg by fastforce
    qed
    with u0 have "of_int (round_ties_even (x / u)) * u \<noteq> 0" by simp
    with z x show False
      by (simp add: binary64_def Let_def e_def u_def)
  qed
next
  fix x :: real
  assume x: "0 \<le> x"
  show "0 \<le> binary64 x"
  proof (cases "x = 0")
    case True
    then show ?thesis by simp
  next
    case False
    have "0 \<le> x / 2 powr (of_int \<lfloor>log 2 \<bar>x\<bar>\<rfloor> - 52)"
      using x by simp
    then have "0 \<le> round_ties_even (x / 2 powr (of_int \<lfloor>log 2 \<bar>x\<bar>\<rfloor> - 52))"
      by (rule round_ties_even_nonneg)
    then show ?thesis
      using False by (simp add: binary64_def Let_def)
  qed
qed

lemmas b64 = binary64_numeral binary64_neg_numeral

lemma binary64_square_sqrt2_nf:
  "binary64 (40564819207303346393761349247529 / 20282409603651670423947251286016)
     = 4503599627370497 / 2251799813685248"
  using binary64_square_sqrt2 by simp

lemma binary64_quotient_nf:
  "binary64 (4503599627370496 / 4503599627370497) = 4503599627370495 / 4503599627370496"
  using binary64_quotient by simp

lemma binary64_plus_one_nf:
  "binary64 (9007199254740991 / 4503599627370496) = 9007199254740991 / 4503599627370496"
  using binary64_plus_one by simp

lemma binary64_halve_nf:
  "binary64 (9007199254740991 / 9007199254740992) = 9007199254740991 / 9007199254740992"
  using binary64_halve by simp

lemmas b64_self = binary64_square_sqrt2_nf binary64_quotient_nf binary64_plus_one_nf
  binary64_halve_nf

lemma mean_0224: "calculateMean binary64 [0, 2, 2, 4] = Num 2"
  by (simp add: stats_defs upt_rec b64)

lemma std_0224:
  "calculateStdDev binary64 [0, 2, 2, 4] (Num 2) = Num (6369051672525773 / 4503599627370496)"
  by (simp add: stats_defs upt_rec b64 binary64_sqrt2)

lemma ncc_0224:
  "calculateNCC binary64 [0, 2, 2, 4] [0, 2, 2, 4] (Num 2) (Num (6369051672525773 / 4503599627370496))
     = Num (9007199254740991 / 9007199254740992)"
  by (simp add: calculateNCC_def mean_0224 std_0224 Let_def jseq_def jssub_def ta_get_def byte_num_def
        upt_rec b64 b64_self)

lemma ex_self_match_strict:
  "findMatches raw_copy binary64
     (request (gray 2 2 [0, 2, 2, 4]) (gray 2 2 [0, 2, 2, 4]) (Some (Num 1))) = Inr []"
proof -
  have g: "\<not> jseq (calculateStdDev binary64 [0, 2, 2, 4] (calculateMean binary64 [0, 2, 2, 4])) (Num 0)"
    by (simp add: mean_0224 std_0224 jseq_def)
  show ?thesis
    by (subst findMatches_templateMatch [where hb = "[0, 2, 2, 4]" and nb = "[0, 2, 2, 4]"])
       (simp_all add: example_defs templateMatch_general [OF g] mean_0224 std_0224 scan_defs
          ncc_0224 upt_rec)
qed

lemma ex_self_match_half:
  "findMatches raw_copy binary64
     (request (gray 2 2 [0, 2, 2, 4]) (gray 2 2 [0, 2, 2, 4]) (Some (Num (1 / 2))))
   = Inr [\<lparr>MatchResult.confidence = Num (9007199254740991 / 9007199254740992),
           location = \<lparr>left = 0, top = 0, width = 2, height = 2\<rparr>, error = None\<rparr>]"
proof -
  have g: "\<not> jseq (calculateStdDev binary64 [0, 2, 2, 4] (calculateMean binary64 [0, 2, 2, 4])) (Num 0)"
    by (simp add: mean_0224 std_0224 jseq_def)
  show ?thesis
    by (subst findMatches_templateMatch [where hb = "[0, 2, 2, 4]" and nb = "[0, 2, 2, 4]"])
       (simp_all add: example_defs templateMatch_general [OF g] mean_0224 std_0224 scan_defs
          ncc_0224 upt_rec)
qed

lemma ex_self_window: "extractRegion [0, 2, 2, 4] 2 0 0 2 2 = Inr [0, 2, 2, 4]"
  by (simp add: extractRegion_window window_def window_row_def subarray_def upt_rec)

lemma binary64_sqrt_near:
  assumes "0 < u" and "u = 2 powr (of_int e - 52)"
    and "(2 powr (of_int e))\<^sup>2 \<le> v" and "v < (2 powr (of_int e + 1))\<^sup>2"
    and "((of_int k - 1 / 2) * u)\<^sup>2 < v" and "v < ((of_int k + 1 / 2) * u)\<^sup>2"
    and "0 < k"
  shows "binary64 (sqrt v) = of_int k * u"
proof (rule binary64_near [OF assms(1,2)])
  have v0: "0 \<le> v"
    using assms(3) by (meson order_trans zero_le_power2)
  have "2 powr (of_int e) \<le> sqrt v"
    using assms(3) by (rule real_le_rsqrt)
  then show "2 powr (of_int e) \<le> \<bar>sqrt v\<bar>" by simp
  have "sqrt v < 2 powr (of_int e + 1)"
    using v0 assms(4) by (intro real_less_lsqrt) simp_all
  then show "\<bar>sqrt v\<bar> < 2 powr (of_int e + 1)" using v0 by simp
  have "(of_int k - 1 / 2) * u < sqrt v"
    using assms(5) by (rule real_less_rsqrt)
  then show "of_int k - 1 / 2 < sqrt v / u"
    using assms(1) by (simp add: pos_less_divide_eq)
  have "0 \<le> (of_int k + 1 / 2) * u"
    using assms(1,7) by simp
  with v0 assms(6) have "sqrt v < (of_int k + 1 / 2) * u"
    by (intro real_less_lsqrt) simp_all
  then show "sqrt v / u < of_int k + 1 / 2"
    using assms(1) by (simp add: pos_divide_less_eq)
qed

lemma b64_vr: "binary64 (148 / 9) = 1157174904254919 / 70368744177664"
proof -
  have "binary64 (148 / 9) = of_int 4628699617019676 * (1 / 281474976710656)"
    by (intro binary64_near [where e = 4]) (simp_all add: powr_neg_numeral)
  then show ?thesis by simp
qed

lemma b64_vn: "binary64 (3700 / 9) = 1808085787898311 / 4398046511104"
proof -
  have "binary64 (3700 / 9) = of_int 7232343151593244 * (1 / 17592186044416)"
    by (intro binary64_near [where e = 8]) (simp_all add: powr_neg_numeral)
  then show ?thesis by simp
qed

lemma b64_cv: "binary64 (740 / 9) = 1446468630318649 / 17592186044416"
proof -
  have "binary64 (740 / 9) = of_int 5785874521274596 * (1 / 70368744177664)"
    by (intro binary64_near [where e = 6]) (simp_all add: powr_neg_numeral)
  then show ?thesis by simp
qed

lemma b64_sr:
  "binary64 (sqrt (1157174904254919 / 70368744177664)) = 4565721177472379 / 1125899906842624"
proof -
  have "binary64 (sqrt (1157174904254919 / 70368744177664))
          = of_int 4565721177472379 * (1 / 1125899906842624)"
    by (intro binary64_sqrt_near [where e = 2])
       (simp_all add: powr_neg_numeral power2_eq_square)
  then show ?thesis by simp
qed

lemma b64_sn:
  "binary64 (sqrt (1808085787898311 / 4398046511104)) = 2853575735920237 / 140737488355328"
proof -
  have "binary64 (sqrt (1808085787898311 / 4398046511104))
          = of_int 5707151471840474 * (1 / 281474976710656)"
    by (intro binary64_sqrt_near [where e = 4])
       (simp_all add: powr_neg_numeral power2_eq_square)
  then show ?thesis by simp
qed

lemma b64_p:
  "binary64 (4565721177472379 / 1125899906842624 * (2853575735920237 / 140737488355328))
     = 2892937260637297 / 35184372088832"
proof -
  have "binary64 (4565721177472379 / 1125899906842624 * (2853575735920237 / 140737488355328))
          = of_int 5785874521274594 * (1 / 70368744177664)"
    by (intro binary64_near [where e = 6]) (simp_all add: powr_neg_numeral)
  then show ?thesis by simp
qed

lemma b64_ncc:
  "binary64 (1446468630318649 / 17592186044416 / (2892937260637297 / 35184372088832))
     = 2251799813685249 / 2251799813685248"
proof -
  have "binary64 (1446468630318649 / 17592186044416 / (2892937260637297 / 35184372088832))
          = of_int 4503599627370498 * (1 / 4503599627370496)"
    by (intro binary64_near [where e = 0]) (simp_all add: powr_neg_numeral)
  then show ?thesis by simp
qed

lemma b64_ncc1:
  "binary64 (2251799813685249 / 2251799813685248 + 1) = 4503599627370497 / 2251799813685248"
proof -
  have "binary64 (2251799813685249 / 2251799813685248 + 1)
          = of_int 4503599627370497 * (1 / 2251799813685248)"
    by (intro binary64_near [where e = 1]) (simp_all add: powr_neg_numeral)
  then show ?thesis by simp
qed

lemma b64_conf:
  "binary64 (4503599627370497 / 2251799813685248 / 2) = 4503599627370497 / 4503599627370496"
proof -
  have "binary64 (4503599627370497 / 2251799813685248 / 2)
          = of_int 4503599627370497 * (1 / 4503599627370496)"
    by (intro binary64_near [where e = 0]) (simp_all add: powr_neg_numeral)
  then show ?thesis by simp
qed

lemma mean_r: "calculateMean binary64 [0, 2, 6, 10, 10, 11, 11, 11, 11] = Num 8"
  by (simp add: stats_defs upt_rec b64)

lemma mean_n: "calculateMean binary64 [0, 10, 30, 50, 50, 55, 55, 55, 55] = Num 40"
  by (simp add: stats_defs upt_rec b64)

lemma std_r:
  "calculateStdDev binary64 [0, 2, 6, 10, 10, 11, 11, 11, 11] (Num 8)
     = Num (4565721177472379 / 1125899906842624)"
  by (simp add: stats_defs upt_rec b64 b64_vr b64_sr)

lemma std_n:
  "calculateStdDev binary64 [0, 10, 30, 50, 50, 55, 55, 55, 55] (Num 40)
     = Num (2853575735920237 / 140737488355328)"
  by (simp add: stats_defs upt_rec b64 b64_vn b64_sn)

lemma b64_p_nf:
  "binary64 (13028631169012354906317214633823 / 158456325028528675187087900672)
     = 2892937260637297 / 35184372088832"
  using b64_p by simp

lemma b64_ncc_nf:
  "binary64 (2892937260637298 / 2892937260637297) = 2251799813685249 / 2251799813685248"
  using b64_ncc by simp

lemma b64_ncc1_nf:
  "binary64 (4503599627370497 / 2251799813685248) = 4503599627370497 / 2251799813685248"
  using b64_ncc1 by simp

lemma b64_conf_nf:
  "binary64 (4503599627370497 / 4503599627370496) = 4503599627370497 / 4503599627370496"
  using b64_conf by simp

lemma ncc_rn:
  "calculateNCC binary64 [0, 2, 6, 10, 10, 11, 11, 11, 11] [0, 10, 30, 50, 50, 55, 55, 55, 55]
     (Num 40) (Num (2853575735920237 / 140737488355328))
   = Num (4503599627370497 / 4503599627370496)"
  by (simp add: calculateNCC_def mean_r std_r Let_def jseq_def jssub_def ta_get_def byte_num_def
        upt_rec b64 b64_cv b64_p_nf b64_ncc_nf b64_ncc1_nf b64_conf_nf)

section \<open>Exact arithmetic\<close>

lemma foldl_jsadd_exact:
  "foldl (\<lambda>acc i. jsadd (\<lambda>x. x) acc (Num (f i))) (Num a) is = Num (a + sum_list (map f is))"
  by (induction "is" arbitrary: a) (simp_all add: add.assoc)

lemma sum_list_upt: "sum_list (map f [0..<n]) = (\<Sum>i<n. f i)"
  by (simp add: interv_sum_list_conv_sum_set_nat atLeast0LessThan)

lemma foldl_cong_set:
  assumes "\<And>acc i. i \<in> set is \<Longrightarrow> f acc i = g acc i"
  shows "foldl f a is = foldl g a is"
  using assms by (induction "is" arbitrary: a) simp_all

lemma calculateMean_exact:
  assumes "buffer \<noteq> []"
  shows "calculateMean (\<lambda>x. x) buffer = Num (mean_spec buffer)"
proof -
  have "foldl (\<lambda>sum i. jsadd (\<lambda>x. x) sum (ta_get buffer i)) (Num 0) [0..<length buffer]
        = foldl (\<lambda>sum i. jsadd (\<lambda>x. x) sum (Num (pixel buffer i))) (Num 0) [0..<length buffer]"
    by (rule foldl_cong_set) (simp add: ta_get_def byte_num_def pixel_def)
  then show ?thesis
    using assms
    by (simp add: calculateMean_def foldl_jsadd_exact sum_list_upt mean_spec_def)
qed

lemma sumSq_exact:
  "foldl (\<lambda>sumSq i. jsadd (\<lambda>x. x) sumSq (jspow2 (\<lambda>x. x) (jssub (\<lambda>x. x) (ta_get buffer i) (Num m))))
     (Num 0) [0..<length buffer]
   = Num (\<Sum>i<length buffer. (pixel buffer i - m)\<^sup>2)"
proof -
  have "foldl (\<lambda>sumSq i. jsadd (\<lambda>x. x) sumSq (jspow2 (\<lambda>x. x) (jssub (\<lambda>x. x) (ta_get buffer i) (Num m))))
     (Num 0) [0..<length buffer]
        = foldl (\<lambda>sumSq i. jsadd (\<lambda>x. x) sumSq (Num ((pixel buffer i - m)\<^sup>2))) (Num 0)
            [0..<length buffer]"
    by (rule foldl_cong_set)
       (simp add: ta_get_def byte_num_def pixel_def jssub_def jspow2_def power2_eq_square)
  then show ?thesis
    by (simp add: foldl_jsadd_exact sum_list_upt)
qed

lemma calculateStdDev_exact:
  assumes "buffer \<noteq> []"
  shows "calculateStdDev (\<lambda>x. x) buffer (Num m)
         = Num (sqrt ((\<Sum>i<length buffer. (pixel buffer i - m)\<^sup>2) / real (length buffer)))"
proof -
  have "0 \<le> (\<Sum>i<length buffer. (pixel buffer i - m)\<^sup>2) / real (length buffer)"
    by (intro divide_nonneg_nonneg sum_nonneg) simp_all
  then show ?thesis
    using assms by (simp add: calculateStdDev_def sumSq_exact)
qed

lemma calculateStdDev_mean_exact:
  assumes "buffer \<noteq> []"
  shows "calculateStdDev (\<lambda>x. x) buffer (calculateMean (\<lambda>x. x) buffer) = Num (stddev_spec buffer)"
  using assms by (simp add: calculateMean_exact calculateStdDev_exact stddev_spec_def)

lemma covariance_exact:
  assumes "length regionBuffer \<le> length needleBuffer"
  shows "foldl (\<lambda>covariance i.
                  jsadd (\<lambda>x. x) covariance
                    (jsmul (\<lambda>x. x) (jssub (\<lambda>x. x) (ta_get regionBuffer i) (Num rm))
                                     (jssub (\<lambda>x. x) (ta_get needleBuffer i) (Num nm))))
           (Num 0) [0..<length regionBuffer]
         = Num (\<Sum>i<length regionBuffer. (pixel regionBuffer i - rm) * (pixel needleBuffer i - nm))"
proof -
  have "foldl (\<lambda>covariance i.
                  jsadd (\<lambda>x. x) covariance
                    (jsmul (\<lambda>x. x) (jssub (\<lambda>x. x) (ta_get regionBuffer i) (Num rm))
                                     (jssub (\<lambda>x. x) (ta_get needleBuffer i) (Num nm))))
           (Num 0) [0..<length regionBuffer]
        = foldl (\<lambda>covariance i. jsadd (\<lambda>x. x) covariance
                   (Num ((pixel regionBuffer i - rm) * (pixel needleBuffer i - nm)))) (Num 0) [0..<length regionBuffer]"
    using assms
    by (intro foldl_cong_set) (simp add: ta_get_def byte_num_def pixel_def jssub_def)
  then show ?thesis
    by (simp add: foldl_jsadd_exact sum_list_upt)
qed

lemma calculateNCC_exact:
  assumes "regionBuffer \<noteq> []" and "length regionBuffer = length needleBuffer"
    and "stddev_spec needleBuffer \<noteq> 0"
  shows "calculateNCC (\<lambda>x. x) regionBuffer needleBuffer
           (Num (mean_spec needleBuffer)) (Num (stddev_spec needleBuffer))
         = Num (if stddev_spec regionBuffer = 0 then 0
                else (ncc_spec regionBuffer needleBuffer + 1) / 2)"
proof -
  have rm: "calculateMean (\<lambda>x. x) regionBuffer = Num (mean_spec regionBuffer)"
    by (rule calculateMean_exact [OF assms(1)])
  have rs: "calculateStdDev (\<lambda>x. x) regionBuffer (Num (mean_spec regionBuffer))
              = Num (stddev_spec regionBuffer)"
    using calculateStdDev_mean_exact [OF assms(1)] by (simp only: rm)
  have le: "length regionBuffer \<le> length needleBuffer"
    using assms(2) by simp
  note cov = covariance_exact [OF le, of "mean_spec regionBuffer" "mean_spec needleBuffer"]
  have n0: "real (length regionBuffer) \<noteq> 0"
    using assms(1) by simp
  show ?thesis
  proof (cases "stddev_spec regionBuffer = 0")
    case True
    then show ?thesis
      using assms(3) unfolding calculateNCC_def Let_def rm rs
      by (simp add: jseq_def)
  next
    case False
    then have p0: "stddev_spec regionBuffer * stddev_spec needleBuffer \<noteq> 0"
      using assms(3) by simp
    show ?thesis
      unfolding calculateNCC_def Let_def rm rs cov
      using False p0 n0
      by (simp add: jseq_def ncc_spec_def covariance_spec_def del: of_nat_eq_0_iff)
  qed
qed

lemma Cauchy_Schwarz_sum:
  fixes a b :: "nat \<Rightarrow> real"
  shows "(\<Sum>i<n. a i * b i)\<^sup>2 \<le> (\<Sum>i<n. (a i)\<^sup>2) * (\<Sum>i<n. (b i)\<^sup>2)"
proof -
  define A where "A = (\<Sum>i<n. (a i)\<^sup>2)"
  define B where "B = (\<Sum>i<n. (b i)\<^sup>2)"
  define C where "C = (\<Sum>i<n. a i * b i)"
  have quad: "0 \<le> t\<^sup>2 * A - 2 * t * C + B" for t
  proof -
    have "0 \<le> (\<Sum>i<n. (t * a i - b i)\<^sup>2)"
      by (rule sum_nonneg) simp
    also have "(\<Sum>i<n. (t * a i - b i)\<^sup>2)
                 = (\<Sum>i<n. t\<^sup>2 * (a i)\<^sup>2 - 2 * t * (a i * b i) + (b i)\<^sup>2)"
      by (rule sum.cong) (simp_all add: power2_diff power_mult_distrib algebra_simps)
    also have "\<dots> = t\<^sup>2 * A - 2 * t * C + B"
      by (simp add: sum.distrib sum_subtractf sum_distrib_left A_def B_def C_def)
    finally show ?thesis .
  qed
  have A0: "0 \<le> A" unfolding A_def by (rule sum_nonneg) simp
  show ?thesis
  proof (cases "A = 0")
    case True
    then have "\<forall>i\<in>{..<n}. (a i)\<^sup>2 = 0"
      unfolding A_def by (subst (asm) sum_nonneg_eq_0_iff) simp_all
    then have "C = 0" unfolding C_def by simp
    with True show ?thesis
      unfolding A_def [symmetric] B_def [symmetric] C_def [symmetric] by simp
  next
    case False
    with A0 have Ap: "0 < A" by simp
    from quad [of "C / A"] have "0 \<le> (C / A)\<^sup>2 * A - 2 * (C / A) * C + B" .
    also have "(C / A)\<^sup>2 * A - 2 * (C / A) * C + B = B - C\<^sup>2 / A"
      using Ap by (simp add: power2_eq_square field_simps)
    finally have "C\<^sup>2 / A \<le> B" by simp
    then have "C\<^sup>2 \<le> A * B"
      using Ap by (simp add: field_simps)
    then show ?thesis
      unfolding A_def B_def C_def .
  qed
qed

lemma ncc_spec_bounds:
  assumes "regionBuffer \<noteq> []" and "length regionBuffer = length needleBuffer"
    and "stddev_spec regionBuffer \<noteq> 0" and "stddev_spec needleBuffer \<noteq> 0"
  shows "- 1 \<le> ncc_spec regionBuffer needleBuffer \<and> ncc_spec regionBuffer needleBuffer \<le> 1"
proof -
  define n where "n = real (length regionBuffer)"
  define a where "a = (\<lambda>i. pixel regionBuffer i - mean_spec regionBuffer)"
  define b where "b = (\<lambda>i. pixel needleBuffer i - mean_spec needleBuffer)"
  define A where "A = (\<Sum>i<length regionBuffer. (a i)\<^sup>2)"
  define B where "B = (\<Sum>i<length regionBuffer. (b i)\<^sup>2)"
  define C where "C = (\<Sum>i<length regionBuffer. a i * b i)"
  have n0: "0 < n" using assms(1) by (simp add: n_def)
  have A0: "0 \<le> A" unfolding A_def by (rule sum_nonneg) simp
  have B0: "0 \<le> B" unfolding B_def by (rule sum_nonneg) simp
  have sr: "stddev_spec regionBuffer = sqrt (A / n)"
    by (simp add: stddev_spec_def A_def a_def n_def)
  have sn: "stddev_spec needleBuffer = sqrt (B / n)"
    using assms(2) by (simp add: stddev_spec_def B_def b_def n_def)
  have cov: "covariance_spec regionBuffer needleBuffer = C / n"
    by (simp add: covariance_spec_def C_def a_def b_def n_def)
  have prod: "stddev_spec regionBuffer * stddev_spec needleBuffer = sqrt (A * B) / n"
    using n0 by (simp add: sr sn real_sqrt_mult real_sqrt_divide)
  have pos: "0 < sqrt (A * B)"
  proof -
    from assms(3,4) have "A / n \<noteq> 0" "B / n \<noteq> 0" by (simp_all add: sr sn)
    with n0 A0 B0 have "0 < A" "0 < B" by simp_all
    then show ?thesis by simp
  qed
  have "C\<^sup>2 \<le> A * B"
    unfolding A_def B_def C_def by (rule Cauchy_Schwarz_sum)
  then have "\<bar>C\<bar> \<le> sqrt (A * B)"
    by (intro real_le_rsqrt) simp
  then have "- sqrt (A * B) \<le> C" "C \<le> sqrt (A * B)"
    by (simp_all add: abs_le_iff)
  then have "- 1 \<le> C / sqrt (A * B)" "C / sqrt (A * B) \<le> 1"
    using pos by (simp_all add: pos_le_divide_eq pos_divide_le_eq)
  moreover have "ncc_spec regionBuffer needleBuffer = C / sqrt (A * B)"
    using n0 by (simp add: ncc_spec_def cov prod)
  ultimately show ?thesis by simp
qed

lemma concat_rows_nth:
  assumes "\<And>k. length (f k) = w" and "j < n" and "i < w"
  shows "concat (map f [0..<n]) ! (j * w + i) = f j ! i"
  using assms(2)
proof (induction n)
  case 0
  then show ?case by simp
next
  case (Suc n)
  have len: "length (concat (map f [0..<n])) = n * w"
    by (induction n) (simp_all add: assms(1))
  show ?case
  proof (cases "j < n")
    case True
    then have "j * w + i < n * w"
    proof -
      from True have "Suc j \<le> n" by simp
      then have "Suc j * w \<le> n * w" by (rule mult_le_mono1)
      with assms(3) show ?thesis by simp
    qed
    with Suc.IH [OF True] len show ?thesis
      by (simp add: nth_append)
  next
    case False
    with Suc.prems have "j = n" by simp
    with len show ?thesis by (simp add: nth_append)
  qed
qed

lemma window_row_nth:
  assumes "i < rw" and "(y + j) * sw + x + i < length b"
  shows "window_row b sw x y rw j ! i = b ! ((y + j) * sw + x + i)"
proof -
  have "i < length (subarray b ((y + j) * sw + x) ((y + j) * sw + x + rw))"
    using assms by (simp add: subarray_def)
  then show ?thesis
    using assms by (simp add: window_row_def Let_def nth_append) (simp add: subarray_def)
qed

lemma window_nth:
  assumes "j < rh" and "i < rw" and "(y + j) * sw + x + i < length b"
  shows "window b sw x y rw rh ! (j * rw + i) = b ! ((y + j) * sw + x + i)"
  unfolding window_def
  using concat_rows_nth [of "window_row b sw x y rw" rw j rh i] assms
  by (simp add: window_row_nth)

lemma window_index_in_range:
  assumes "hw * hh \<le> length hb" and "int x \<le> int hw - int nw" and "int y \<le> int hh - int nh"
    and "j < nh" and "i < nw"
  shows "(y + j) * hw + (x + i) < length hb"
proof -
  from assms(2,5) have xi: "x + i < hw" by linarith
  from assms(3,4) have "Suc (y + j) \<le> hh" by linarith
  then have "Suc (y + j) * hw \<le> hh * hw" by (rule mult_le_mono1)
  with xi assms(1) show ?thesis by (simp add: mult.commute)
qed

lemma general_branch_exact:
  assumes "nb \<noteq> []" and "length nb = nw * nh"
    and "\<not> jseq (calculateStdDev (\<lambda>x. x) nb (calculateMean (\<lambda>x. x) nb)) (Num 0)"
  shows "stddev_spec nb \<noteq> 0"
    and "window_confidence (\<lambda>x. x) hb hw nb nw nh x y
         = Num (if stddev_spec (window hb hw x y nw nh) = 0 then 0
                else (ncc_spec (window hb hw x y nw nh) nb + 1) / 2)"
proof -
  from assms(3) show sd: "stddev_spec nb \<noteq> 0"
    by (simp add: calculateStdDev_mean_exact [OF assms(1)] jseq_def)
  have w: "window hb hw x y nw nh \<noteq> []"
  proof
    assume "window hb hw x y nw nh = []"
    then have "length (window hb hw x y nw nh) = 0" by (simp only: list.size)
    with assms(1,2) show False by auto
  qed
  have l: "length (window hb hw x y nw nh) = length nb"
    using assms(2) by simp
  show "window_confidence (\<lambda>x. x) hb hw nb nw nh x y
         = Num (if stddev_spec (window hb hw x y nw nh) = 0 then 0
                else (ncc_spec (window hb hw x y nw nh) nb + 1) / 2)"
  proof -
    have mn: "calculateMean (\<lambda>x. x) nb = Num (mean_spec nb)"
      by (rule calculateMean_exact [OF assms(1)])
    have sdn: "calculateStdDev (\<lambda>x. x) nb (Num (mean_spec nb)) = Num (stddev_spec nb)"
      using calculateStdDev_mean_exact [OF assms(1)] by (simp only: mn)
    show ?thesis
      by (simp only: window_confidence_def mn sdn calculateNCC_exact [OF w l sd])
  qed
qed

lemma empty_needle_no_confidence:
  assumes "length nb = nw * nh" and "nb = []"
  shows "window_confidence rnd hb hw nb nw nh x y = NaN"
proof -
  have "length (window hb hw x y nw nh) = 0"
    using assms by simp
  then have "window hb hw x y nw nh = []" by (simp only: length_0_conv)
  with assms(2) show ?thesis
    by (simp add: window_confidence_def stats_defs)
qed

text \<open>
  The range of the confidence in exact arithmetic.  For a needle buffer of width times
  height bytes, every result of \<open>findMatches\<close> has a confidence in \<open>[0, 1]\<close>: 1 in the
  degenerate branch; in the general branch 0 for a window of standard deviation 0 and
  \<open>(NCC + 1) / 2\<close> otherwise, where \<open>NCC\<close>, the covariance of window and needle divided
  by the product of their standard deviations, lies in \<open>[-1, 1]\<close> by the Cauchy-Schwarz
  inequality.  So a confidence outside \<open>[0, 1]\<close> can only come from rounding.
\<close>

lemma confidence_range_exact:
  assumes "\<not> (Image.width (haystack rq) < Image.width (needle rq)
              \<or> Image.height (haystack rq) < Image.height (needle rq))"
    and "imageToRawBuffer sharp (haystack rq) = Inr hb"
    and "imageToRawBuffer sharp (needle rq) = Inr nb"
    and "length nb = Image.width (needle rq) * Image.height (needle rq)"
    and "findMatches sharp (\<lambda>x. x) rq = Inr ms"
    and "m \<in> set ms"
  shows "(\<exists>c. MatchResult.confidence m = Num c \<and> 0 \<le> c \<and> c \<le> 1)
       \<and> (jseq (calculateStdDev (\<lambda>x. x) nb (calculateMean (\<lambda>x. x) nb)) (Num 0)
            \<longrightarrow> MatchResult.confidence m = Num 1)
       \<and> (\<not> jseq (calculateStdDev (\<lambda>x. x) nb (calculateMean (\<lambda>x. x) nb)) (Num 0)
            \<longrightarrow> (\<exists>w. extractRegion hb (Image.width (haystack rq)) (left (location m)) (top (location m))
                          (Image.width (needle rq)) (Image.height (needle rq)) = Inr w
                     \<and> MatchResult.confidence m
                         = Num (if stddev_spec w = 0 then 0 else (ncc_spec w nb + 1) / 2)
                     \<and> (stddev_spec w \<noteq> 0 \<longrightarrow> - 1 \<le> ncc_spec w nb \<and> ncc_spec w nb \<le> 1)))"
proof (cases "jseq (calculateStdDev (\<lambda>x. x) nb (calculateMean (\<lambda>x. x) nb)) (Num 0)")
  case True
  from assms(5,6) findMatches_templateMatch [OF assms(1-3), of "\<lambda>x. x"]
    templateMatch_uniform [OF True]
  have "MatchResult.confidence m = Num 1"
    by (auto simp: set_scan new_MatchResult_def split: if_splits)
  with True show ?thesis by simp
next
  case False
  let ?hw = "Image.width (haystack rq)" and ?hh = "Image.height (haystack rq)"
  let ?nw = "Image.width (needle rq)" and ?nh = "Image.height (needle rq)"
  from assms(5,6) findMatches_templateMatch [OF assms(1-3), of "\<lambda>x. x"]
    templateMatch_general [OF False]
  obtain x y where ge: "jsge (window_confidence (\<lambda>x. x) hb ?hw nb ?nw ?nh x y) (threshold (\<lambda>x. x) rq)"
    and m: "m = new_MatchResult (window_confidence (\<lambda>x. x) hb ?hw nb ?nw ?nh x y)
                  (new_Region x y ?nw ?nh) None"
    by (auto simp: set_scan split: if_splits)
  have ne: "nb \<noteq> []"
  proof
    assume "nb = []"
    from empty_needle_no_confidence [OF assms(4) this] ge show False by simp
  qed
  let ?w = "window hb ?hw x y ?nw ?nh"
  note gb = general_branch_exact(1) [OF ne assms(4) False]
    general_branch_exact(2) [OF ne assms(4) False, of hb ?hw x y]
  have conf: "MatchResult.confidence m
                = Num (if stddev_spec ?w = 0 then 0 else (ncc_spec ?w nb + 1) / 2)"
    by (simp add: m new_MatchResult_def gb(2))
  have wne: "?w \<noteq> []"
  proof
    assume "?w = []"
    then have "length ?w = 0" by (simp only: list.size)
    with ne assms(4) show False by auto
  qed
  have bounds: "- 1 \<le> ncc_spec ?w nb \<and> ncc_spec ?w nb \<le> 1" if "stddev_spec ?w \<noteq> 0"
    by (rule ncc_spec_bounds [OF wne _ that gb(1)]) (simp add: assms(4))
  have loc: "left (location m) = x" "top (location m) = y"
    by (simp_all add: m new_MatchResult_def new_Region_def)
  have range: "\<exists>c. MatchResult.confidence m = Num c \<and> 0 \<le> c \<and> c \<le> 1"
  proof (cases "stddev_spec ?w = 0")
    case True
    with conf show ?thesis by simp
  next
    case False
    from bounds [OF False] have "0 \<le> (ncc_spec ?w nb + 1) / 2" "(ncc_spec ?w nb + 1) / 2 \<le> 1"
      by simp_all
    moreover from conf False
    have "MatchResult.confidence m = Num ((ncc_spec ?w nb + 1) / 2)" by simp
    ultimately show ?thesis by blast
  qed
  from range conf bounds False show ?thesis
    by (simp add: loc extractRegion_window)
qed

section \<open>The confidence under rounding\<close>

lemma b64_default: "binary64 (8 / 10) = 3602879701896397 / 4503599627370496"
proof -
  have "binary64 (8 / 10) = of_int 7205759403792794 * (1 / 9007199254740992)"
    by (intro binary64_near [where e = "- 1"]) (simp_all add: powr_neg_numeral)
  then show ?thesis by simp
qed

lemma b64_default_nf: "binary64 (4 / 5) = 3602879701896397 / 4503599627370496"
  using b64_default by simp

lemma ex_above_one:
  "findMatches raw_copy binary64
     (request (gray 3 3 [0, 2, 6, 10, 10, 11, 11, 11, 11])
              (gray 3 3 [0, 10, 30, 50, 50, 55, 55, 55, 55]) None)
   = Inr [\<lparr>MatchResult.confidence = Num (4503599627370497 / 4503599627370496),
           location = \<lparr>left = 0, top = 0, width = 3, height = 3\<rparr>, error = None\<rparr>]"
proof -
  have g: "\<not> jseq (calculateStdDev binary64 [0, 10, 30, 50, 50, 55, 55, 55, 55]
                     (calculateMean binary64 [0, 10, 30, 50, 50, 55, 55, 55, 55])) (Num 0)"
    by (simp add: mean_n std_n jseq_def)
  show ?thesis
    by (subst findMatches_templateMatch
          [where hb = "[0, 2, 6, 10, 10, 11, 11, 11, 11]"
             and nb = "[0, 10, 30, 50, 50, 55, 55, 55, 55]"])
       (simp_all add: example_defs templateMatch_general [OF g] mean_n std_n scan_defs
          ncc_rn upt_rec b64_default_nf)
qed

text \<open>
  Claim C5 (violated by the code).  \<open>calculateNCC\<close> is documented to return a value
  between 0 and 1, and does not clamp the quotient it computes.  With the arithmetic of
  the program, rounding to the nearest double: the 3 by 3 haystack
  \<open>0 2 6 / 10 10 11 / 11 11 11\<close> and the needle holding five times these values are
  perfectly correlated; the product of the two rounded standard deviations comes out
  two units in the last place below the rounded covariance, and the confidence returned
  is \<open>1 + 2\<^sup>-\<^sup>5\<^sup>2\<close>, above 1.
\<close>

theorem confidence_above_one:
  "findMatches raw_copy binary64
     (request (gray 3 3 [0, 2, 6, 10, 10, 11, 11, 11, 11])
              (gray 3 3 [0, 10, 30, 50, 50, 55, 55, 55, 55]) None)
   = Inr [\<lparr>MatchResult.confidence = Num (1 + 1 / 2 ^ 52),
           location = \<lparr>left = 0, top = 0, width = 3, height = 3\<rparr>, error = None\<rparr>]
   \<and> jsgt (Num (1 + 1 / 2 ^ 52)) (Num 1)"
  by (simp add: ex_above_one)

text \<open>
  Claim C7 (as stated, refuted).  With rounding to the nearest double, the 2 by 2
  haystack \<open>0 2 / 2 4\<close> searched for itself: the variance is 2, the square of the rounded
  square root of 2 is \<open>2 + 2\<^sup>-\<^sup>5\<^sup>1\<close>, and the confidence at offset \<open>(0, 0)\<close> comes out as
  \<open>1 - 2\<^sup>-\<^sup>5\<^sup>3\<close>.  At threshold 1 no match is returned; at a lower threshold the match
  is returned with that confidence, not 1.
\<close>

theorem self_match_rounded:
  "extractRegion [0, 2, 2, 4] 2 0 0 2 2 = Inr [0, 2, 2, 4]
   \<and> findMatches raw_copy binary64
        (request (gray 2 2 [0, 2, 2, 4]) (gray 2 2 [0, 2, 2, 4]) (Some (Num 1))) = Inr []
   \<and> findMatches raw_copy binary64
        (request (gray 2 2 [0, 2, 2, 4]) (gray 2 2 [0, 2, 2, 4]) (Some (Num (1 / 2))))
      = Inr [\<lparr>MatchResult.confidence = Num (1 - 1 / 2 ^ 53),
              location = \<lparr>left = 0, top = 0, width = 2, height = 2\<rparr>, error = None\<rparr>]
   \<and> \<not> jsge (Num (1 - 1 / 2 ^ 53)) (Num 1)"
  by (simp add: ex_self_window ex_self_match_strict ex_self_match_half)

section \<open>Self-match under rounding\<close>

subsection \<open>The relative error of rounding\<close>

lemma round_ties_even_error: "\<bar>of_int (round_ties_even r) - r\<bar> \<le> 1 / 2"
proof -
  have "of_int \<lfloor>r\<rfloor> \<le> r" "r < of_int \<lfloor>r\<rfloor> + 1" by linarith+
  then show ?thesis
    by (auto simp: round_ties_even_def Let_def)
qed

lemma rel_error_binary64: "rel_error binary64 (1 / 2 ^ 53)"
  unfolding rel_error_def
proof
  fix x :: real
  show "\<bar>binary64 x - x\<bar> \<le> 1 / 2 ^ 53 * \<bar>x\<bar>"
  proof (cases "x = 0")
    case True
    then show ?thesis by simp
  next
    case False
    define e where "e = \<lfloor>log 2 \<bar>x\<bar>\<rfloor>"
    define ulp :: real where "ulp = 2 powr (of_int e - 52)"
    have u0: "0 < ulp" by (simp add: ulp_def)
    have b: "binary64 x = of_int (round_ties_even (x / ulp)) * ulp"
      using False by (simp add: binary64_def Let_def e_def ulp_def)
    have "binary64 x - x = (of_int (round_ties_even (x / ulp)) - x / ulp) * ulp"
      using u0 by (simp add: b algebra_simps)
    then have "\<bar>binary64 x - x\<bar> = \<bar>of_int (round_ties_even (x / ulp)) - x / ulp\<bar> * ulp"
      using u0 by (simp add: abs_mult)
    also have "\<dots> \<le> 1 / 2 * ulp"
      using round_ties_even_error [of "x / ulp"] u0 by (intro mult_right_mono) simp_all
    also have "1 / 2 * ulp = 1 / 2 ^ 53 * 2 powr (of_int e)"
      by (simp add: ulp_def powr_diff)
    also have "\<dots> \<le> 1 / 2 ^ 53 * \<bar>x\<bar>"
    proof -
      have "2 powr (of_int e) \<le> \<bar>x\<bar>"
        using floor_log_eq_powr_iff [of "\<bar>x\<bar>" 2 e] False by (simp add: e_def)
      then show ?thesis by (intro mult_left_mono) simp_all
    qed
    finally show ?thesis .
  qed
qed

lemma rel_error_id: "rel_error (\<lambda>x. x) 0"
  by (simp add: rel_error_def)

lemma rel_error_zero: "rel_error rnd u \<Longrightarrow> rnd 0 = 0"
  unfolding rel_error_def
proof -
  assume "\<forall>x. \<bar>rnd x - x\<bar> \<le> u * \<bar>x\<bar>"
  then have "\<bar>rnd 0 - 0\<bar> \<le> u * \<bar>0\<bar>" by blast
  then show ?thesis by simp
qed

lemma rel_error_between:
  assumes "rel_error rnd u" and "0 \<le> u" and "u \<le> 1"
    and "0 \<le> lo" and "lo \<le> x" and "x \<le> hi"
  shows "lo * (1 - u) \<le> rnd x" and "rnd x \<le> hi * (1 + u)"
proof -
  from assms(4,5) have x0: "0 \<le> x" by simp
  from assms(1) have "\<bar>rnd x - x\<bar> \<le> u * \<bar>x\<bar>" unfolding rel_error_def by blast
  with x0 have lo: "x - u * x \<le> rnd x" and hi: "rnd x \<le> x + u * x" by simp_all
  have "lo * (1 - u) \<le> x * (1 - u)"
    using assms(3,5) by (intro mult_right_mono) simp_all
  with lo show "lo * (1 - u) \<le> rnd x" by (simp add: algebra_simps)
  have "x * (1 + u) \<le> hi * (1 + u)"
    using assms(2,6) by (intro mult_right_mono) simp_all
  with hi show "rnd x \<le> hi * (1 + u)" by (simp add: algebra_simps)
qed

lemma rel_error_keeps_sign:
  assumes "rel_error rnd u" and "0 \<le> u" and "u < 1"
  shows "keeps_sign rnd"
  unfolding keeps_sign_def
proof (intro conjI allI impI)
  fix x assume "rnd x = 0"
  moreover from assms(1) have "\<bar>rnd x - x\<bar> \<le> u * \<bar>x\<bar>" unfolding rel_error_def by blast
  ultimately have "\<bar>x\<bar> \<le> u * \<bar>x\<bar>" by simp
  then have "(1 - u) * \<bar>x\<bar> \<le> 0" by (simp add: algebra_simps)
  with assms(3) have "\<bar>x\<bar> \<le> 0"
    by (simp add: mult_le_0_iff)
  then show "x = 0" by simp
next
  fix x :: real assume "0 \<le> x"
  from rel_error_between(1) [OF assms(1,2) _ order_refl this order_refl] assms(3)
  show "0 \<le> rnd x" by simp
qed

subsection \<open>The correlation of a buffer with itself\<close>

lemma poly_lower:
  fixes u :: real
  assumes "0 \<le> u" and "u \<le> 1 / 16"
  shows "(1 - 3 * u) * ((1 + u) * (1 + u) * (1 + u)) \<le> 1"
proof -
  have "(1 - 3 * u) * ((1 + u) * (1 + u) * (1 + u))
          = 1 - u * u * (6 + 8 * u + 3 * (u * u))"
    by (simp add: algebra_simps)
  moreover have "0 \<le> u * u * (6 + 8 * u + 3 * (u * u))"
    using assms by (intro mult_nonneg_nonneg add_nonneg_nonneg) simp_all
  ultimately show ?thesis by simp
qed

lemma poly_upper:
  fixes u :: real
  assumes "0 \<le> u" and "u \<le> 1 / 16"
  shows "1 \<le> (1 + 4 * u) * ((1 - u) * (1 - u) * (1 - u))"
proof -
  have "(1 + 4 * u) * ((1 - u) * (1 - u) * (1 - u))
          = 1 + u * ((1 - 9 * u) + u * u * (11 - 4 * u))"
    by (simp add: algebra_simps)
  moreover have "0 \<le> u * ((1 - 9 * u) + u * u * (11 - 4 * u))"
    using assms by (intro mult_nonneg_nonneg add_nonneg_nonneg) simp_all
  ultimately show ?thesis by simp
qed

lemma self_correlation_near:
  assumes re: "rel_error rnd u" and u0: "0 \<le> u" and u16: "u \<le> 1 / 16" and v: "0 < v"
  defines "s \<equiv> rnd (sqrt v)"
  defines "p \<equiv> rnd (s * s)"
  defines "c \<equiv> rnd (rnd (rnd (v / p) + 1) / 2)"
  shows "0 < s" and "0 < p" and "1 - 4 * u \<le> c" and "c \<le> 1 + 6 * u"
proof -
  from u16 have u1: "u \<le> 1" by simp
  note rb = rel_error_between [OF re u0 u1]
  define w where "w = u * u"
  have w0: "0 \<le> w" by (simp add: w_def)
  have w16: "16 * w \<le> u"
  proof -
    have "u * u \<le> 1 / 16 * u" using u0 u16 by (intro mult_right_mono) simp_all
    then show ?thesis by (simp add: w_def)
  qed
  define r where "r = sqrt v"
  have r0: "0 < r" and rr: "r * r = v" using v by (simp_all add: r_def)
  have r00: "0 \<le> r" using r0 by simp
  have s_lo: "r * (1 - u) \<le> s" and s_hi: "s \<le> r * (1 + u)"
    unfolding s_def r_def [symmetric]
    by (rule rb(1) [OF r00 order_refl order_refl], rule rb(2) [OF r00 order_refl order_refl])
  have rl: "0 < r * (1 - u)" using r0 u16 by simp
  with s_lo show s0: "0 < s" by simp
  have ss_lo: "v * ((1 - u) * (1 - u)) \<le> s * s"
  proof -
    have "(r * (1 - u)) * (r * (1 - u)) \<le> s * s"
      using s_lo s0 rl by (intro mult_mono) simp_all
    then show ?thesis by (simp add: rr [symmetric] algebra_simps)
  qed
  have ss_hi: "s * s \<le> v * ((1 + u) * (1 + u))"
  proof -
    have "s * s \<le> (r * (1 + u)) * (r * (1 + u))"
      using s_hi s0 r0 u0 by (intro mult_mono) simp_all
    then show ?thesis by (simp add: rr [symmetric] algebra_simps)
  qed
  have ss_lo0: "0 \<le> v * ((1 - u) * (1 - u))" using v by simp
  have "v * ((1 - u) * (1 - u)) * (1 - u) \<le> p" and "p \<le> v * ((1 + u) * (1 + u)) * (1 + u)"
    unfolding p_def
    by (rule rb(1) [OF ss_lo0 ss_lo ss_hi], rule rb(2) [OF ss_lo0 ss_lo ss_hi])
  then have p_lo: "v * ((1 - u) * (1 - u) * (1 - u)) \<le> p"
    and p_hi: "p \<le> v * ((1 + u) * (1 + u) * (1 + u))"
    by (simp_all add: mult.assoc)
  have "0 < v * ((1 - u) * (1 - u) * (1 - u))" using v u16 by simp
  with p_lo show p0: "0 < p" by simp
  have q_lo: "1 - 3 * u \<le> v / p"
  proof -
    have "(1 - 3 * u) * p \<le> (1 - 3 * u) * (v * ((1 + u) * (1 + u) * (1 + u)))"
      using p_hi u16 by (intro mult_left_mono) simp_all
    also have "\<dots> = v * ((1 - 3 * u) * ((1 + u) * (1 + u) * (1 + u)))" by simp
    also have "\<dots> \<le> v * 1"
      using poly_lower [OF u0 u16] v by (intro mult_left_mono) simp_all
    finally show ?thesis using p0 by (simp add: pos_le_divide_eq)
  qed
  have q_hi: "v / p \<le> 1 + 4 * u"
  proof -
    have "v * 1 \<le> v * ((1 + 4 * u) * ((1 - u) * (1 - u) * (1 - u)))"
      using poly_upper [OF u0 u16] v by (intro mult_left_mono) simp_all
    also have "\<dots> = (1 + 4 * u) * (v * ((1 - u) * (1 - u) * (1 - u)))" by simp
    also have "\<dots> \<le> (1 + 4 * u) * p"
      using p_lo u0 by (intro mult_left_mono) simp_all
    finally show ?thesis using p0 by (simp add: pos_divide_le_eq)
  qed
  have lo0: "0 \<le> 1 - 3 * u" using u16 by simp
  have "(1 - 3 * u) * (1 - u) \<le> rnd (v / p)" and "rnd (v / p) \<le> (1 + 4 * u) * (1 + u)"
    by (rule rb(1) [OF lo0 q_lo q_hi], rule rb(2) [OF lo0 q_lo q_hi])
  moreover have "1 - 4 * u \<le> (1 - 3 * u) * (1 - u)"
  proof -
    have "(1 - 3 * u) * (1 - u) = 1 - 4 * u + 3 * w" by (simp add: w_def algebra_simps)
    with w0 show ?thesis by simp
  qed
  moreover have "(1 + 4 * u) * (1 + u) \<le> 1 + 6 * u"
  proof -
    have "(1 + 4 * u) * (1 + u) = 1 + 5 * u + 4 * w" by (simp add: w_def algebra_simps)
    with w0 w16 show ?thesis by simp
  qed
  ultimately have n_lo: "2 - 4 * u \<le> rnd (v / p) + 1" and n_hi: "rnd (v / p) + 1 \<le> 2 + 6 * u"
    by simp_all
  have lo1: "0 \<le> 2 - 4 * u" using u16 by simp
  have "(2 - 4 * u) * (1 - u) \<le> rnd (rnd (v / p) + 1)"
    and "rnd (rnd (v / p) + 1) \<le> (2 + 6 * u) * (1 + u)"
    by (rule rb(1) [OF lo1 n_lo n_hi], rule rb(2) [OF lo1 n_lo n_hi])
  moreover have "2 - 6 * u \<le> (2 - 4 * u) * (1 - u)"
  proof -
    have "(2 - 4 * u) * (1 - u) = 2 - 6 * u + 4 * w" by (simp add: w_def algebra_simps)
    with w0 show ?thesis by simp
  qed
  moreover have "(2 + 6 * u) * (1 + u) \<le> 2 + 9 * u"
  proof -
    have "(2 + 6 * u) * (1 + u) = 2 + 8 * u + 6 * w" by (simp add: w_def algebra_simps)
    with w0 w16 show ?thesis by simp
  qed
  ultimately have a_lo: "1 - 3 * u \<le> rnd (rnd (v / p) + 1) / 2"
    and a_hi: "rnd (rnd (v / p) + 1) / 2 \<le> 1 + 9 / 2 * u"
    by simp_all
  have "(1 - 3 * u) * (1 - u) \<le> c" and "c \<le> (1 + 9 / 2 * u) * (1 + u)"
    unfolding c_def
    by (rule rb(1) [OF lo0 a_lo a_hi], rule rb(2) [OF lo0 a_lo a_hi])
  moreover have "1 - 4 * u \<le> (1 - 3 * u) * (1 - u)"
  proof -
    have "(1 - 3 * u) * (1 - u) = 1 - 4 * u + 3 * w" by (simp add: w_def algebra_simps)
    with w0 show ?thesis by simp
  qed
  moreover have "(1 + 9 / 2 * u) * (1 + u) \<le> 1 + 6 * u"
  proof -
    have "(1 + 9 / 2 * u) * (1 + u) = 1 + 11 / 2 * u + 9 / 2 * w"
      by (simp add: w_def field_simps)
    with w0 w16 show ?thesis by simp
  qed
  ultimately show "1 - 4 * u \<le> c" and "c \<le> 1 + 6 * u" by simp_all
qed

lemma calculateStdDev_variance:
  "calculateStdDev rnd buffer mean = jssqrt rnd (variance rnd buffer mean)"
  by (simp add: calculateStdDev_def variance_def)

lemma calculateNCC_self:
  "calculateNCC rnd b b (calculateMean rnd b) (calculateStdDev rnd b (calculateMean rnd b))
     = (if jseq (calculateStdDev rnd b (calculateMean rnd b)) (Num 0) then Num 1
        else jsdiv rnd
               (jsadd rnd
                  (jsdiv rnd (variance rnd b (calculateMean rnd b))
                     (jsmul rnd (calculateStdDev rnd b (calculateMean rnd b))
                                (calculateStdDev rnd b (calculateMean rnd b))))
                  (Num 1))
               (Num 2))"
  by (simp add: calculateNCC_def Let_def variance_def jspow2_def)

lemma foldl_jsadd_nonneg:
  assumes ks: "keeps_sign rnd"
  shows "\<forall>i \<in> set is. \<exists>q. f i = Num q \<and> 0 \<le> q \<Longrightarrow> 0 \<le> a \<Longrightarrow>
         \<exists>S. foldl (\<lambda>acc i. jsadd rnd acc (f i)) (Num a) is = Num S \<and> 0 \<le> S"
proof (induction "is" arbitrary: a)
  case Nil
  then show ?case by simp
next
  case (Cons i "is")
  from Cons.prems(1) obtain q where q: "f i = Num q" "0 \<le> q" by auto
  with Cons.prems(2) ks have "0 \<le> rnd (a + q)" by (simp add: keeps_sign_def)
  moreover from Cons.prems(1) have "\<forall>i \<in> set is. \<exists>q. f i = Num q \<and> 0 \<le> q" by simp
  ultimately have "\<exists>S. foldl (\<lambda>acc i. jsadd rnd acc (f i)) (Num (rnd (a + q))) is = Num S \<and> 0 \<le> S"
    by (rule Cons.IH [rotated])
  with q show ?case by simp
qed

lemma variance_nonneg:
  assumes ks: "keeps_sign rnd" and ne: "b \<noteq> []"
  shows "\<exists>v. variance rnd b (calculateMean rnd b) = Num v \<and> 0 \<le> v"
proof -
  from calculateMean_Num [OF ne, of rnd] obtain m where m: "calculateMean rnd b = Num m"
    by (cases "calculateMean rnd b") simp_all
  let ?f = "\<lambda>i. jspow2 rnd (jssub rnd (ta_get b i) (Num m))"
  have "\<forall>i \<in> set [0..<length b]. \<exists>q. ?f i = Num q \<and> 0 \<le> q"
    using ks by (simp add: ta_get_def byte_num_def jssub_def jspow2_def keeps_sign_def)
  from foldl_jsadd_nonneg [OF ks this order_refl]
  obtain S where S: "foldl (\<lambda>acc i. jsadd rnd acc (?f i)) (Num 0) [0..<length b] = Num S"
    and S0: "0 \<le> S" by blast
  from ne have n: "real (length b) \<noteq> 0" by simp
  have "0 \<le> S / real (length b)" using S0 by simp
  with ks have "0 \<le> rnd (S / real (length b))" by (simp add: keeps_sign_def)
  with S n show ?thesis by (simp add: variance_def m)
qed

lemma self_confidence_near:
  assumes re: "rel_error rnd u" and u0: "0 \<le> u" and u16: "u \<le> 1 / 16"
    and ne: "b \<noteq> []"
    and g: "\<not> jseq (calculateStdDev rnd b (calculateMean rnd b)) (Num 0)"
  shows "\<exists>c. calculateNCC rnd b b (calculateMean rnd b)
                (calculateStdDev rnd b (calculateMean rnd b)) = Num c
             \<and> 1 - 4 * u \<le> c \<and> c \<le> 1 + 6 * u"
proof -
  from u16 have "u < 1" by simp
  with re u0 have ks: "keeps_sign rnd" by (rule rel_error_keeps_sign)
  from variance_nonneg [OF ks ne] obtain v where
    v: "variance rnd b (calculateMean rnd b) = Num v" and v0: "0 \<le> v" by blast
  have sd: "calculateStdDev rnd b (calculateMean rnd b) = Num (rnd (sqrt v))"
    using v0 by (simp add: calculateStdDev_variance v)
  have "v \<noteq> 0"
  proof
    assume "v = 0"
    with sd rel_error_zero [OF re] g show False by (simp add: jseq_def)
  qed
  with v0 have vpos: "0 < v" by simp
  note near = self_correlation_near [OF re u0 u16 vpos]
  from near(2) have p: "rnd (rnd (sqrt v) * rnd (sqrt v)) \<noteq> 0" by simp
  have "calculateNCC rnd b b (calculateMean rnd b) (calculateStdDev rnd b (calculateMean rnd b))
          = Num (rnd (rnd (rnd (v / rnd (rnd (sqrt v) * rnd (sqrt v))) + 1) / 2))"
    using g p by (simp add: calculateNCC_self) (simp add: sd v)
  with near(3,4) show ?thesis by simp
qed

subsection \<open>Constant buffers\<close>

lemma binary64_of_nat:
  assumes "n < 2 ^ 53"
  shows "binary64 (real n) = real n"
proof -
  from assms have "int n < int (2 ^ 53)" by (simp only: of_nat_less_iff)
  then have "\<bar>int n\<bar> < 2 ^ 53" by simp
  then have "binary64 (of_int (int n)) = of_int (int n)" by (rule binary64_of_int)
  then show ?thesis by simp
qed

lemma foldl_jsadd_const:
  "a + length is * v < 2 ^ 53 \<Longrightarrow>
   foldl (\<lambda>acc i. jsadd binary64 acc (Num (real v))) (Num (real a)) is
     = Num (real (a + length is * v))"
proof (induction "is" arbitrary: a)
  case Nil
  then show ?case by simp
next
  case (Cons i "is")
  from Cons.prems have "a + v < 2 ^ 53" and r: "(a + v) + length is * v < 2 ^ 53" by simp_all
  then have "binary64 (real (a + v)) = real (a + v)" by (intro binary64_of_nat)
  then have "binary64 (real a + real v) = real (a + v)" by simp
  with Cons.IH [OF r] show ?case by (simp add: add.assoc)
qed

lemma byte_less_256: "unat (V :: 8 word) \<le> 255"
  using unsigned_less [of V, where ?'a = nat] by simp

lemma constant_needle_uniform:
  assumes c: "set nb = {V}" and small: "255 * length nb < 2 ^ 53"
  shows "calculateMean binary64 nb = byte_num V"
    and "calculateStdDev binary64 nb (calculateMean binary64 nb) = Num 0"
proof -
  let ?v = "unat V" and ?n = "length nb"
  from c have ne: "nb \<noteq> []" by auto
  then have n0: "0 < ?n" by simp
  have at: "ta_get nb i = Num (real ?v)" if "i \<in> set [0..<?n]" for i
  proof -
    from that have "nb ! i \<in> set nb" by simp
    with c that show ?thesis by (simp add: ta_get_def byte_num_def)
  qed
  have "?n * ?v \<le> ?n * 255" by (rule mult_le_mono2) (rule byte_less_256)
  moreover have "?n * 255 < 2 ^ 53" using small by (simp add: mult.commute)
  ultimately have "?n * ?v < 2 ^ 53" by (rule le_less_trans)
  then have b: "0 + length [0..<?n] * ?v < 2 ^ 53" by simp
  have "foldl (\<lambda>sum i. jsadd binary64 sum (ta_get nb i)) (Num 0) [0..<?n]
          = foldl (\<lambda>sum i. jsadd binary64 sum (Num (real ?v))) (Num 0) [0..<?n]"
    by (rule foldl_cong_set) (simp add: at)
  also have "\<dots> = Num (real (0 + length [0..<?n] * ?v))"
    using foldl_jsadd_const [OF b] by simp
  finally have sum: "foldl (\<lambda>sum i. jsadd binary64 sum (ta_get nb i)) (Num 0) [0..<?n]
                       = Num (real ?n * real ?v)" by simp
  have "?v < 2 ^ 53" using byte_less_256 [of V] by simp
  then have bv: "binary64 (real ?v) = real ?v" by (rule binary64_of_nat)
  show m: "calculateMean binary64 nb = byte_num V"
    using n0 bv by (simp add: calculateMean_def sum byte_num_def)
  have "foldl (\<lambda>sumSq i. jsadd binary64 sumSq
                  (jspow2 binary64 (jssub binary64 (ta_get nb i) (byte_num V)))) (Num 0) [0..<?n]
          = foldl (\<lambda>sumSq i. jsadd binary64 sumSq (Num 0)) (Num 0) [0..<?n]"
    by (rule foldl_cong_set) (simp add: at byte_num_def jssub_def jspow2_def)
  also have "\<dots> = Num 0"
    using foldl_jsadd_const [of 0 "[0..<?n]" 0] by simp
  finally show "calculateStdDev binary64 nb (calculateMean binary64 nb) = Num 0"
    using n0 by (simp add: calculateStdDev_def m)
qed

subsection \<open>The self-match\<close>

text \<open>
  Claim C7 (amended).  With the arithmetic of the program, rounding to the nearest
  double, and a converter that only succeeds on images that have pixels: when the needle
  buffer is the window that \<open>extractRegion\<close> takes from the haystack buffer at an offset
  \<open>(x0, y0)\<close> of the search area, \<open>findMatches\<close> returns a match at the region
  \<open>(x0, y0, needleWidth, needleHeight)\<close> whose confidence is 1 up to rounding.  When the
  standard deviation of the needle is 0, the match comes from the exact-match fallback:
  the window is constant, the confidence is exactly 1, and the threshold does not
  matter.  Otherwise the match comes from the correlation: the confidence is within
  \<open>2\<^sup>-\<^sup>5\<^sup>0\<close> of 1, the match is returned for every threshold of at most
  \<open>1 - 2\<^sup>-\<^sup>5\<^sup>0\<close>, and the window is not constant (unless it has \<open>2\<^sup>5\<^sup>3 / 255\<close> bytes
  or more, beyond the size of a typed array).
\<close>

theorem self_match_tolerance:
  assumes conv: "pixel_converter sharp"
    and hb: "imageToRawBuffer sharp (haystack rq) = Inr hb"
    and nb: "imageToRawBuffer sharp (needle rq) = Inr nb"
    and ext: "extractRegion hb (Image.width (haystack rq)) x0 y0
           (Image.width (needle rq)) (Image.height (needle rq)) = Inr nb"
    and x0: "int x0 \<le> int (Image.width (haystack rq)) - int (Image.width (needle rq))"
    and y0: "int y0 \<le> int (Image.height (haystack rq)) - int (Image.height (needle rq))"
    and thr: "jseq (calculateStdDev binary64 nb (calculateMean binary64 nb)) (Num 0)
         \<or> jsge (Num (1 - 1 / 2 ^ 50)) (threshold binary64 rq)"
  shows "\<exists>ms c. findMatches sharp binary64 rq = Inr ms
           \<and> \<lparr>MatchResult.confidence = Num c,
               location = \<lparr>left = x0, top = y0, width = Image.width (needle rq),
                             height = Image.height (needle rq)\<rparr>,
               error = None\<rparr> \<in> set ms
           \<and> (if jseq (calculateStdDev binary64 nb (calculateMean binary64 nb)) (Num 0)
              then c = 1 \<and> (\<exists>V. set nb = {V})
              else \<bar>c - 1\<bar> \<le> 1 / 2 ^ 50
                   \<and> ((\<exists>V. set nb = {V}) \<longrightarrow> 2 ^ 53 \<le> 255 * length nb))"
proof -
  let ?hw = "Image.width (haystack rq)" and ?hh = "Image.height (haystack rq)"
  let ?nw = "Image.width (needle rq)" and ?nh = "Image.height (needle rq)"
  let ?m = "\<lambda>c. \<lparr>MatchResult.confidence = Num c,
               location = \<lparr>left = x0, top = y0, width = ?nw, height = ?nh\<rparr>,
               error = None\<rparr>"
  have w: "window hb ?hw x0 y0 ?nw ?nh = nb"
    using ext by (simp add: extractRegion_window)
  then have len: "length nb = ?nw * ?nh"
    using length_window [of hb ?hw x0 y0 ?nw ?nh] by (simp del: length_window)
  from hb have "sharp (haystack rq) = Inr hb" by (simp only: imageToRawBuffer_Inr)
  with conv have hlen: "?hw * ?hh \<le> length hb"
    unfolding pixel_converter_def by blast
  from nb have "sharp (needle rq) = Inr nb" by (simp only: imageToRawBuffer_Inr)
  with conv have "0 < ?nw" and "0 < ?nh"
    unfolding pixel_converter_def by blast+
  then have "0 < ?nw * ?nh" by simp
  with len have ne: "nb \<noteq> []" by auto
  from x0 y0 have v: "\<not> (?hw < ?nw \<or> ?hh < ?nh)" by linarith
  note tm = findMatches_templateMatch [OF v hb nb, of binary64]
  show ?thesis
  proof (cases "jseq (calculateStdDev binary64 nb (calculateMean binary64 nb)) (Num 0)")
    case True
    from uniform_needle_constant [OF keeps_sign_binary64 True] obtain V where
      V: "set nb = {V}" and mv: "calculateMean binary64 nb = byte_num V"
      by blast
    have "window_equals hb ?hw x0 y0 ?nw ?nh (byte_num V)"
      unfolding window_equals_byte
    proof (intro allI impI conjI)
      fix j i assume j: "j < ?nh" and i: "i < ?nw"
      show inr: "(y0 + j) * ?hw + (x0 + i) < length hb"
        by (rule window_index_in_range [OF hlen x0 y0 j i])
      have "j * ?nw + i < length nb"
      proof -
        from j have "Suc j \<le> ?nh" by simp
        then have "Suc j * ?nw \<le> ?nh * ?nw" by (rule mult_le_mono1)
        with i len show ?thesis by (simp add: mult.commute)
      qed
      then have "nb ! (j * ?nw + i) \<in> set nb" by (rule nth_mem)
      with V have "nb ! (j * ?nw + i) = V" by simp
      moreover have "window hb ?hw x0 y0 ?nw ?nh ! (j * ?nw + i) = hb ! ((y0 + j) * ?hw + x0 + i)"
        using inr by (intro window_nth [OF j i]) (simp add: add.assoc)
      ultimately show "hb ! ((y0 + j) * ?hw + (x0 + i)) = V"
        by (simp add: w add.assoc)
    qed
    then have "?m 1 \<in> set (scan ?hw ?hh ?nw ?nh
                 (\<lambda>x y. if window_equals hb ?hw x y ?nw ?nh (calculateMean binary64 nb)
                        then [new_MatchResult (Num 1) (new_Region x y ?nw ?nh) None] else []))"
      unfolding set_scan using x0 y0
      by (simp add: mv new_MatchResult_def new_Region_def)
    then have "findMatches sharp binary64 rq
                 = Inr (scan ?hw ?hh ?nw ?nh
                 (\<lambda>x y. if window_equals hb ?hw x y ?nw ?nh (calculateMean binary64 nb)
                        then [new_MatchResult (Num 1) (new_Region x y ?nw ?nh) None] else []))
               \<and> ?m 1 \<in> set (scan ?hw ?hh ?nw ?nh
                 (\<lambda>x y. if window_equals hb ?hw x y ?nw ?nh (calculateMean binary64 nb)
                        then [new_MatchResult (Num 1) (new_Region x y ?nw ?nh) None] else []))"
      by (simp add: tm templateMatch_uniform [OF True])
    with True V show ?thesis by auto
  next
    case False
    with thr have t: "jsge (Num (1 - 1 / 2 ^ 50)) (threshold binary64 rq)" by simp
    have u0: "(0::real) \<le> 1 / 2 ^ 53" and u16: "(1::real) / 2 ^ 53 \<le> 1 / 16" by simp_all
    from self_confidence_near [OF rel_error_binary64 u0 u16 ne False]
    obtain c where c: "calculateNCC binary64 nb nb (calculateMean binary64 nb)
                (calculateStdDev binary64 nb (calculateMean binary64 nb)) = Num c"
      and lo: "1 - 4 * (1 / 2 ^ 53) \<le> c" and hi: "c \<le> 1 + 6 * (1 / 2 ^ 53)"
      by blast
    have wc: "window_confidence binary64 hb ?hw nb ?nw ?nh x0 y0 = Num c"
      by (simp add: window_confidence_def w c)
    from lo have "jsge (Num c) (Num (1 - 1 / 2 ^ 50))" by simp
    then have ge: "jsge (Num c) (threshold binary64 rq)"
      using t by (rule jsge_trans)
    have near: "\<bar>c - 1\<bar> \<le> 1 / 2 ^ 50"
      unfolding abs_le_iff using lo hi by simp
    have mem: "?m c \<in> set (scan ?hw ?hh ?nw ?nh
                 (\<lambda>x y. if jsge (window_confidence binary64 hb ?hw nb ?nw ?nh x y) (threshold binary64 rq)
                        then [new_MatchResult (window_confidence binary64 hb ?hw nb ?nw ?nh x y)
                                (new_Region x y ?nw ?nh) None] else []))"
      unfolding set_scan using x0 y0 ge wc
      by (auto simp: new_MatchResult_def new_Region_def intro!: exI [of _ x0] exI [of _ y0])
    have "findMatches sharp binary64 rq
            = Inr (scan ?hw ?hh ?nw ?nh
                 (\<lambda>x y. if jsge (window_confidence binary64 hb ?hw nb ?nw ?nh x y) (threshold binary64 rq)
                        then [new_MatchResult (window_confidence binary64 hb ?hw nb ?nw ?nh x y)
                                (new_Region x y ?nw ?nh) None] else []))"
      by (simp add: tm templateMatch_general [OF False])
    moreover have "2 ^ 53 \<le> 255 * length nb" if "\<exists>V. set nb = {V}"
    proof (rule ccontr)
      assume "\<not> 2 ^ 53 \<le> 255 * length nb"
      then have small: "255 * length nb < 2 ^ 53" by simp
      from that obtain V where "set nb = {V}" ..
      from constant_needle_uniform(2) [OF this small] False show False
        by (simp add: jseq_def)
    qed
    ultimately show ?thesis using mem near False by auto
  qed
qed

lemma mean_9_b64: "calculateMean binary64 [9] = Num 9"
  by (simp add: stats_defs b64)

lemma std_9_b64: "calculateStdDev binary64 [9] (Num 9) = Num 0"
  by (simp add: stats_defs jssub_def jspow2_def b64)

theorem self_match_tolerance_witness:
  "\<not> jseq (calculateStdDev binary64 [0, 2, 2, 4] (calculateMean binary64 [0, 2, 2, 4])) (Num 0)
   \<and> extractRegion [0, 2, 2, 4] 2 0 0 2 2 = Inr [0, 2, 2, 4]
   \<and> jsge (Num (1 - 1 / 2 ^ 50))
        (threshold binary64 (request (gray 2 2 [0, 2, 2, 4]) (gray 2 2 [0, 2, 2, 4]) (Some (Num (1 / 2)))))
   \<and> (\<exists>ms c. findMatches raw_copy binary64
                 (request (gray 2 2 [0, 2, 2, 4]) (gray 2 2 [0, 2, 2, 4]) (Some (Num (1 / 2)))) = Inr ms
          \<and> \<lparr>MatchResult.confidence = Num c,
              location = \<lparr>left = 0, top = 0, width = 2, height = 2\<rparr>, error = None\<rparr> \<in> set ms
          \<and> \<bar>c - 1\<bar> \<le> 1 / 2 ^ 50)
   \<and> jseq (calculateStdDev binary64 [9] (calculateMean binary64 [9])) (Num 0)
   \<and> extractRegion [7, 9] 2 1 0 1 1 = Inr [9]
   \<and> (\<exists>ms. findMatches raw_copy binary64 (request (gray 2 1 [7, 9]) (gray 1 1 [9]) (Some (Num 2))) = Inr ms
          \<and> \<lparr>MatchResult.confidence = Num 1,
              location = \<lparr>left = 1, top = 0, width = 1, height = 1\<rparr>, error = None\<rparr> \<in> set ms)"
proof -
  let ?a = "request (gray 2 2 [0, 2, 2, 4]) (gray 2 2 [0, 2, 2, 4]) (Some (Num (1 / 2)))"
  let ?b = "request (gray 2 1 [7, 9]) (gray 1 1 [9]) (Some (Num 2))"
  have ga: "\<not> jseq (calculateStdDev binary64 [0, 2, 2, 4] (calculateMean binary64 [0, 2, 2, 4])) (Num 0)"
    by (simp add: mean_0224 std_0224 jseq_def)
  note cv = pixel_converter_raw_copy
  have ha: "imageToRawBuffer raw_copy (haystack ?a) = Inr [0, 2, 2, 4]"
    and na: "imageToRawBuffer raw_copy (needle ?a) = Inr [0, 2, 2, 4]"
    by (simp_all add: example_defs)
  have wa: "extractRegion [0, 2, 2, 4] (Image.width (haystack ?a)) 0 0
              (Image.width (needle ?a)) (Image.height (needle ?a)) = Inr [0, 2, 2, 4]"
    by (simp add: example_defs ex_self_window)
  have xa: "int 0 \<le> int (Image.width (haystack ?a)) - int (Image.width (needle ?a))"
    and ya: "int 0 \<le> int (Image.height (haystack ?a)) - int (Image.height (needle ?a))"
    by (simp_all add: example_defs)
  have ta: "jsge (Num (1 - 1 / 2 ^ 50)) (threshold binary64 ?a)"
    by (simp add: example_defs)
  then have ta': "jseq (calculateStdDev binary64 [0, 2, 2, 4] (calculateMean binary64 [0, 2, 2, 4])) (Num 0)
         \<or> jsge (Num (1 - 1 / 2 ^ 50)) (threshold binary64 ?a)" ..
  from self_match_tolerance [OF cv ha na wa xa ya ta'] ga
  have "\<exists>ms c. findMatches raw_copy binary64 ?a = Inr ms
           \<and> \<lparr>MatchResult.confidence = Num c,
               location = \<lparr>left = 0, top = 0, width = Image.width (needle ?a),
                             height = Image.height (needle ?a)\<rparr>,
               error = None\<rparr> \<in> set ms
           \<and> \<bar>c - 1\<bar> \<le> 1 / 2 ^ 50"
    by (simp only: if_False) blast
  then have A: "\<exists>ms c. findMatches raw_copy binary64 ?a = Inr ms
          \<and> \<lparr>MatchResult.confidence = Num c,
              location = \<lparr>left = 0, top = 0, width = 2, height = 2\<rparr>, error = None\<rparr> \<in> set ms
          \<and> \<bar>c - 1\<bar> \<le> 1 / 2 ^ 50"
    by (simp add: request_def gray_def)
  have gb: "jseq (calculateStdDev binary64 [9] (calculateMean binary64 [9])) (Num 0)"
    by (simp add: mean_9_b64 std_9_b64 jseq_def)
  have hb: "imageToRawBuffer raw_copy (haystack ?b) = Inr [7, 9]"
    and nb: "imageToRawBuffer raw_copy (needle ?b) = Inr [9]"
    by (simp_all add: example_defs)
  have wb0: "extractRegion [7, 9] 2 1 0 1 1 = Inr [9]"
    by (simp add: extractRegion_window window_def window_row_def subarray_def)
  then have wb: "extractRegion [7, 9] (Image.width (haystack ?b)) 1 0
              (Image.width (needle ?b)) (Image.height (needle ?b)) = Inr [9]"
    by (simp add: example_defs)
  have xb: "int 1 \<le> int (Image.width (haystack ?b)) - int (Image.width (needle ?b))"
    and yb: "int 0 \<le> int (Image.height (haystack ?b)) - int (Image.height (needle ?b))"
    by (simp_all add: example_defs)
  from gb have tb: "jseq (calculateStdDev binary64 [9] (calculateMean binary64 [9])) (Num 0)
         \<or> jsge (Num (1 - 1 / 2 ^ 50)) (threshold binary64 ?b)" ..
  from self_match_tolerance [OF cv hb nb wb xb yb tb] gb
  have "\<exists>ms c. findMatches raw_copy binary64 ?b = Inr ms
           \<and> \<lparr>MatchResult.confidence = Num c,
               location = \<lparr>left = 1, top = 0, width = Image.width (needle ?b),
                             height = Image.height (needle ?b)\<rparr>,
               error = None\<rparr> \<in> set ms
           \<and> c = 1 \<and> (\<exists>V. set [9 :: 8 word] = {V})"
    by (simp only: if_True)
  then have B: "\<exists>ms. findMatches raw_copy binary64 ?b = Inr ms
          \<and> \<lparr>MatchResult.confidence = Num 1,
              location = \<lparr>left = 1, top = 0, width = 1, height = 1\<rparr>, error = None\<rparr> \<in> set ms"
    by (auto simp: request_def gray_def)
  from ga ex_self_window ta A gb wb0 B show ?thesis by blast
qed

end
